theory Spec2Isabelle
  imports Main "HOL-Library.Word"
begin

unbundle bit_operations_syntax

section \<open>Python values used by \<^verbatim>\<open>main.py\<close>\<close>

subsection \<open>Exceptions\<close>

text \<open>
  The handlers of the program distinguish three families of exception classes:
  \<^verbatim>\<open>RuntimeError\<close> (and its subclasses), the other subclasses of \<^verbatim>\<open>Exception\<close>
  (botocore's errors, \<^verbatim>\<open>cv2.error\<close>, \<^verbatim>\<open>KeyError\<close>, ...), and the classes that derive
  from \<^verbatim>\<open>BaseException\<close> only (\<^verbatim>\<open>SystemExit\<close>, \<^verbatim>\<open>KeyboardInterrupt\<close>), which
  \<^verbatim>\<open>except Exception\<close> does not catch. An exception carries its class name and the
  text \<^verbatim>\<open>str(e)\<close> that the f-strings of the log messages print.
\<close>

datatype exc_kind = RuntimeErrorK | ExceptionK | BaseExceptionK

datatype py_exc = Exc (kind: exc_kind) (cls: string) (message: string)

definition is_RuntimeError :: "py_exc \<Rightarrow> bool" where
  "is_RuntimeError e = (kind e = RuntimeErrorK)"

definition is_Exception :: "py_exc \<Rightarrow> bool" where
  "is_Exception e = (kind e \<noteq> BaseExceptionK)"

text \<open>\<^verbatim>\<open>sys.exit(1)\<close> raises \<^verbatim>\<open>SystemExit(1)\<close>.\<close>

definition sys_exit :: "int \<Rightarrow> py_exc" where
  "sys_exit code = Exc BaseExceptionK ''SystemExit'' (if code = 1 then ''1'' else ''?'')"

text \<open>\<^verbatim>\<open>d[k]\<close> on a dict without the key \<^verbatim>\<open>k\<close> raises \<^verbatim>\<open>KeyError(k)\<close>, whose text is the
  \<^verbatim>\<open>repr\<close> of the key.\<close>

definition KeyError :: "string \<Rightarrow> py_exc" where
  "KeyError k = Exc ExceptionK ''KeyError'' ([CHR 0x27] @ k @ [CHR 0x27])"

subsection \<open>Integers and floats as text\<close>

definition digit :: "nat \<Rightarrow> char" where
  "digit d = ''0123456789'' ! d"

fun str_nat :: "nat \<Rightarrow> string" where
  "str_nat n = (if n < 10 then [digit n] else str_nat (n div 10) @ [digit (n mod 10)])"

declare str_nat.simps [simp del]

definition str_int :: "int \<Rightarrow> string" where
  "str_int i = (if i < 0 then ''-'' @ str_nat (nat (- i)) else str_nat (nat i))"

text \<open>
  A Python \<^verbatim>\<open>float\<close> is an IEEE 754 double: a sign, and either a magnitude
  \<open>m * 2 ^ e\<close> with \<open>m\<close> a natural number and \<open>e\<close> an integer, an infinity, or a NaN.
  (The type has every dyadic rational, so every double.)
\<close>

datatype pyfloat = Finite bool nat int | Infinity bool | NaN

text \<open>
  \<^verbatim>\<open>format(x, '.1f')\<close> prints the decimal with one fractional digit that is nearest to
  the exact value of \<open>x\<close>, a tie going to the even digit (CPython rounds correctly), and
  keeps the sign, also of a zero. \<open>tenths m e\<close> is the magnitude \<open>m * 2 ^ e\<close> in tenths,
  so rounded.
\<close>

definition round_half_even :: "nat \<Rightarrow> nat \<Rightarrow> nat" where
  "round_half_even n d =
     (let q = n div d; r = n mod d
      in if d < 2 * r \<or> (2 * r = d \<and> odd q) then q + 1 else q)"

definition tenths :: "nat \<Rightarrow> int \<Rightarrow> nat" where
  "tenths m e =
     (if 0 \<le> e then 10 * m * 2 ^ nat e else round_half_even (10 * m) (2 ^ nat (- e)))"

fun format_1f :: "pyfloat \<Rightarrow> string" where
  "format_1f (Finite s m e) =
     (if s then ''-'' else '''') @ str_nat (tenths m e div 10) @ ''.'' @ str_nat (tenths m e mod 10)"
| "format_1f (Infinity s) = (if s then ''-inf'' else ''inf'')"
| "format_1f NaN = ''nan''"

section \<open>The data of the program\<close>

text \<open>
  A label of the DetectLabels response is a dict that botocore builds from the response
  shape: \<^verbatim>\<open>'Name'\<close> is a string and \<^verbatim>\<open>'Confidence'\<close> a float, and a member that the
  service leaves out is absent from the dict (\<open>None\<close> here). Of the response the
  program reads the key \<^verbatim>\<open>'Labels'\<close> only, which may be absent too.
\<close>

record label =
  Name :: "string option"
  Confidence :: "pyfloat option"

record response =
  Labels :: "label list option"

type_synonym bytes = "8 word list"

record image =
  Bytes :: bytes

record request =
  Image :: image
  MaxLabels :: int
  MinConfidence :: int

subsection \<open>Frames and what OpenCV draws on them\<close>

text \<open>
  A frame is the captured pixel grid together with what has been drawn on it since, in
  drawing order: \<^verbatim>\<open>cv2.rectangle\<close> and \<^verbatim>\<open>cv2.putText\<close> change the frame in place, and
  the model returns the changed frame.
\<close>

type_synonym point = "int \<times> int"
type_synonym color = "int \<times> int \<times> int"

datatype font = FONT_HERSHEY_SIMPLEX

datatype draw_op =
    Rectangle point point color int
  | PutText string point font pyfloat color int

record 'img frame =
  pixels :: 'img
  overlay :: "draw_op list"

definition rectangle :: "'img frame \<Rightarrow> point \<Rightarrow> point \<Rightarrow> color \<Rightarrow> int \<Rightarrow> 'img frame" where
  "rectangle fr pt1 pt2 c thickness = fr\<lparr>overlay := overlay fr @ [Rectangle pt1 pt2 c thickness]\<rparr>"

definition putText ::
  "'img frame \<Rightarrow> string \<Rightarrow> point \<Rightarrow> font \<Rightarrow> pyfloat \<Rightarrow> color \<Rightarrow> int \<Rightarrow> 'img frame" where
  "putText fr text org fnt scale c thickness =
     fr\<lparr>overlay := overlay fr @ [PutText text org fnt scale c thickness]\<rparr>"

definition FILLED :: int where
  "FILLED = - 1"

text \<open>
  The two functions of OpenCV whose results the program computes with are parameters:
  \<^verbatim>\<open>cv2.imencode('.jpg', frame)\<close>, which returns \<^verbatim>\<open>(success, buffer)\<close> or raises, and
  \<^verbatim>\<open>cv2.getTextSize(text, font, scale, thickness)\<close>, which returns
  \<^verbatim>\<open>((w, h), baseline)\<close>.
\<close>

record 'img cv2 =
  imencode :: "'img frame \<Rightarrow> py_exc + bool \<times> bytes"
  getTextSize :: "string \<Rightarrow> font \<Rightarrow> pyfloat \<Rightarrow> int \<Rightarrow> (int \<times> int) \<times> int"

section \<open>\<^verbatim>\<open>draw_labels\<close>\<close>

definition dy :: int where
  "dy = 20"

definition font_scale :: pyfloat where
  "font_scale = Finite False 5404319552844595 (- 53)"

definition font_thickness :: int where
  "font_thickness = 1"

definition text_color :: color where
  "text_color = (0, 255, 0)"

definition bg_color :: color where
  "bg_color = (0, 0, 0)"

definition margin :: int where
  "margin = 5"

text \<open>The f-string \<^verbatim>\<open>f"{label['Name']} ({label['Confidence']:.1f}%)"\<close>: the two
  subscripts are evaluated from left to right, and each raises \<^verbatim>\<open>KeyError\<close> on a
  label without the key.\<close>

definition label_text :: "label \<Rightarrow> py_exc + string" where
  "label_text l =
     (case Name l of
        None \<Rightarrow> Inl (KeyError ''Name'')
      | Some n \<Rightarrow>
          (case Confidence l of
             None \<Rightarrow> Inl (KeyError ''Confidence'')
           | Some c \<Rightarrow> Inr (n @ '' ('' @ format_1f c @ ''%)'')))"

text \<open>The \<^verbatim>\<open>for\<close> loop of \<^verbatim>\<open>draw_labels\<close>, with the variable \<^verbatim>\<open>y0\<close> and the frame
  that each round changes.\<close>

fun draw_loop :: "'img cv2 \<Rightarrow> int \<Rightarrow> 'img frame \<Rightarrow> label list \<Rightarrow> py_exc + 'img frame" where
  "draw_loop cv y0 fr [] = Inr fr"
| "draw_loop cv y0 fr (l # ls) =
     (case label_text l of
        Inl e \<Rightarrow> Inl e
      | Inr text \<Rightarrow>
          (case getTextSize cv text FONT_HERSHEY_SIMPLEX font_scale font_thickness of
             ((w, h), baseline) \<Rightarrow>
               draw_loop cv (y0 + (h + baseline + dy))
                 (putText
                    (rectangle fr (margin, y0 - h - margin)
                       (margin + w + margin, y0 + baseline + margin) bg_color FILLED)
                    text (margin + margin, y0 + baseline div 2)
                    FONT_HERSHEY_SIMPLEX font_scale text_color font_thickness)
                 ls))"

definition draw_labels :: "'img cv2 \<Rightarrow> 'img frame \<Rightarrow> label list \<Rightarrow> py_exc + 'img frame" where
  "draw_labels cv fr ls = draw_loop cv 30 fr ls"

section \<open>\<^verbatim>\<open>process_frames\<close>\<close>

text \<open>
  What the program does to the outside is a trace of events: the records that reach
  the log (the logger is configured at level INFO, so the \<^verbatim>\<open>logging.debug\<close> calls
  emit nothing) and the calls of the camera, of the display and of Rekognition.
\<close>

datatype level = INFO | WARNING | ERROR

datatype 'img event =
    Log level string
  | Boto3Client string string string
  | VideoCapture int
  | Read
  | Imencode "'img frame"
  | DetectLabels request
  | Imshow string "'img frame"
  | WaitKey int
  | Release
  | DestroyAllWindows

text \<open>
  What the outside answers during one round of the \<^verbatim>\<open>while\<close> loop: the result of
  \<^verbatim>\<open>cap.read()\<close>, of \<^verbatim>\<open>rek_client.detect_labels(...)\<close>, of \<^verbatim>\<open>cv2.imshow(...)\<close> and of
  \<^verbatim>\<open>cv2.waitKey(1)\<close>, each either a value or an exception. An answer is consumed only
  when the round makes the call.
\<close>

record 'img iter_env =
  cap_read :: "py_exc + bool \<times> 'img"
  detect_labels :: "py_exc + response"
  imshow :: "py_exc + unit"
  waitKey :: "py_exc + int"

datatype control = Continue | Break | Raise py_exc

text \<open>\<^verbatim>\<open>response.get('Labels', [])\<close>\<close>

definition get_Labels :: "response \<Rightarrow> label list" where
  "get_Labels r = (case Labels r of None \<Rightarrow> [] | Some ls \<Rightarrow> ls)"

text \<open>
  One round of the loop body, in the three parts that the comments of the source
  mark, last part first. \<^bold>\<open>User Input for Exit\<close>: \<^verbatim>\<open>cv2.waitKey(1) & 0xFF\<close> is compared
  with \<^verbatim>\<open>ord('q')\<close>.
\<close>

definition user_input_for_exit :: "'img iter_env \<Rightarrow> 'img event list \<times> control" where
  "user_input_for_exit env =
     (case waitKey env of
        Inl e \<Rightarrow> ([WaitKey 1], Raise e)
      | Inr k \<Rightarrow>
          if k AND 0xFF = of_char CHR ''q'' then
            ([WaitKey 1, Log INFO ([CHR 0x27] @ ''q'' @ [CHR 0x27] @ '' key pressed. Exiting loop.'')], Break)
          else ([WaitKey 1], Continue))"

text \<open>\<^bold>\<open>Displaying Results\<close>: \<^verbatim>\<open>draw_labels(frame, labels)\<close>, then
  \<^verbatim>\<open>cv2.imshow('Live Labels', frame)\<close>, then the exit check.\<close>

definition displaying_results ::
  "'img cv2 \<Rightarrow> 'img frame \<Rightarrow> label list \<Rightarrow> 'img iter_env \<Rightarrow> 'img event list \<times> control" where
  "displaying_results cv fr labels env =
     (case draw_labels cv fr labels of
        Inl e \<Rightarrow> ([], Raise e)
      | Inr fr' \<Rightarrow>
          (case imshow env of
             Inl e \<Rightarrow> ([Imshow ''Live Labels'' fr'], Raise e)
           | Inr _ \<Rightarrow>
               (case user_input_for_exit env of
                  (evs, c) \<Rightarrow> (Imshow ''Live Labels'' fr' # evs, c))))"

text \<open>
  \<^bold>\<open>Frame Processing and Rekognition\<close>, and the whole round. The local variable
  \<^verbatim>\<open>labels\<close> lives across the rounds of the loop (\<open>None\<close>: not yet bound), so a round
  takes its value and returns it. The \<^verbatim>\<open>try\<close> block catches what
  \<^verbatim>\<open>except Exception\<close> catches; any other exception leaves the loop.
\<close>

definition iteration ::
  "'img cv2 \<Rightarrow> label list option \<Rightarrow> 'img iter_env \<Rightarrow>
     'img event list \<times> label list option \<times> control" where
  "iteration cv labels env =
     (case cap_read env of
        Inl e \<Rightarrow> ([Read], labels, Raise e)
      | Inr (ret, px) \<Rightarrow>
          if \<not> ret then
            ([Read, Log WARNING ''Failed to retrieve frame from camera. Exiting loop.''],
             labels, Break)
          else
            (case imencode cv \<lparr>pixels = px, overlay = []\<rparr> of
               Inl e \<Rightarrow> ([Read, Imencode \<lparr>pixels = px, overlay = []\<rparr>], labels, Raise e)
             | Inr (success, img_buffer) \<Rightarrow>
                 if \<not> success then
                   ([Read, Imencode \<lparr>pixels = px, overlay = []\<rparr>,
                     Log WARNING ''Failed to encode frame.''],
                    labels, Continue)
                 else
                   (case detect_labels env of
                      Inl e \<Rightarrow>
                        if is_Exception e then
                          ([Read, Imencode \<lparr>pixels = px, overlay = []\<rparr>,
                            Log INFO ''Calling Rekognition detect_labels API...'',
                            DetectLabels
                              \<lparr>Image = \<lparr>Bytes = img_buffer\<rparr>, MaxLabels = 10, MinConfidence = 75\<rparr>,
                            Log ERROR (''Error calling Rekognition API: '' @ message e)],
                           labels, Continue)
                        else
                          ([Read, Imencode \<lparr>pixels = px, overlay = []\<rparr>,
                            Log INFO ''Calling Rekognition detect_labels API...'',
                            DetectLabels
                              \<lparr>Image = \<lparr>Bytes = img_buffer\<rparr>, MaxLabels = 10, MinConfidence = 75\<rparr>],
                           labels, Raise e)
                    | Inr response \<Rightarrow>
                        (case displaying_results cv \<lparr>pixels = px, overlay = []\<rparr>
                                (get_Labels response) env of
                           (evs, c) \<Rightarrow>
                             ([Read, Imencode \<lparr>pixels = px, overlay = []\<rparr>,
                               Log INFO ''Calling Rekognition detect_labels API...'',
                               DetectLabels
                                 \<lparr>Image = \<lparr>Bytes = img_buffer\<rparr>, MaxLabels = 10, MinConfidence = 75\<rparr>,
                               Log INFO (''Rekognition detected ''
                                 @ str_nat (length (get_Labels response)) @ '' labels.'')]
                              @ evs,
                              Some (get_Labels response), c)))))"

text \<open>
  The \<^verbatim>\<open>while True\<close> loop, run against the answers of the outside for the first
  rounds. It leaves by \<^verbatim>\<open>break\<close> (\<open>Returned\<close>) or by an exception (\<open>Propagated\<close>);
  when the answers are used up it is still looping (\<open>Running\<close>).
\<close>

datatype outcome = Running | Returned | Propagated py_exc

fun process_frames ::
  "'img cv2 \<Rightarrow> label list option \<Rightarrow> 'img iter_env list \<Rightarrow> 'img event list \<times> outcome" where
  "process_frames cv labels [] = ([], Running)"
| "process_frames cv labels (env # envs) =
     (case iteration cv labels env of
        (evs, labels', c) \<Rightarrow>
          (case c of
             Continue \<Rightarrow>
               (case process_frames cv labels' envs of (evs', out) \<Rightarrow> (evs @ evs', out))
           | Break \<Rightarrow> (evs, Returned)
           | Raise e \<Rightarrow> (evs, Propagated e)))"

section \<open>\<^verbatim>\<open>initialize_rekognition\<close>, \<^verbatim>\<open>open_camera\<close> and \<^verbatim>\<open>main\<close>\<close>

text \<open>
  What the outside answers at startup: the environment variables, the result of
  \<^verbatim>\<open>boto3.client(...)\<close>, and whether the camera device opens. \<^verbatim>\<open>REGION_NAME\<close> is the
  module's global; the module exits before \<^verbatim>\<open>main\<close> when it is empty.
\<close>

record startup =
  AWS_ACCESS_KEY_ID :: "string option"
  AWS_SECRET_ACCESS_KEY :: "string option"
  REGION_NAME :: string
  boto3_client :: "py_exc + unit"
  isOpened :: bool

text \<open>\<^verbatim>\<open>not v\<close> for the result of \<^verbatim>\<open>os.getenv\<close>: \<^verbatim>\<open>None\<close> or the empty string.\<close>

definition falsy :: "string option \<Rightarrow> bool" where
  "falsy v = (case v of None \<Rightarrow> True | Some s \<Rightarrow> s = [])"

definition initialize_rekognition :: "startup \<Rightarrow> 'img event list \<times> (py_exc + unit)" where
  "initialize_rekognition st =
     (if falsy (AWS_ACCESS_KEY_ID st) \<or> falsy (AWS_SECRET_ACCESS_KEY st) then
        ([Log ERROR
            ''AWS credentials (AWS_ACCESS_KEY_ID, AWS_SECRET_ACCESS_KEY) not found.''],
         Inl (sys_exit 1))
      else
        (case boto3_client st of
           Inr rek_client \<Rightarrow>
             ([Boto3Client (the (AWS_ACCESS_KEY_ID st)) (the (AWS_SECRET_ACCESS_KEY st))
                 (REGION_NAME st),
               Log INFO (''Successfully initialized Rekognition client in region ''
                 @ [CHR 0x27] @ REGION_NAME st @ [CHR 0x27] @ ''.'')],
              Inr rek_client)
         | Inl e \<Rightarrow>
             if is_Exception e then
               ([Boto3Client (the (AWS_ACCESS_KEY_ID st)) (the (AWS_SECRET_ACCESS_KEY st))
                   (REGION_NAME st),
                 Log ERROR (''Error initializing Rekognition client: '' @ message e)],
                Inl (sys_exit 1))
             else
               ([Boto3Client (the (AWS_ACCESS_KEY_ID st)) (the (AWS_SECRET_ACCESS_KEY st))
                   (REGION_NAME st)],
                Inl e)))"

text \<open>The camera object that \<^verbatim>\<open>open_camera\<close> returns is named by its device index.\<close>

definition open_camera :: "startup \<Rightarrow> int \<Rightarrow> 'img event list \<times> (py_exc + int)" where
  "open_camera st index =
     (if \<not> isOpened st then
        ([Log INFO (''Attempting to open camera at index '' @ str_int index @ ''...''),
          VideoCapture index,
          Log ERROR (''Cannot open camera at index '' @ str_int index @ ''.'')],
         Inl (Exc RuntimeErrorK ''RuntimeError''
                (''Cannot open camera at index '' @ str_int index)))
      else
        ([Log INFO (''Attempting to open camera at index '' @ str_int index @ ''...''),
          VideoCapture index,
          Log INFO (''Camera at index '' @ str_int index @ '' opened successfully.'')],
         Inr index))"

text \<open>The \<^verbatim>\<open>finally\<close> block of \<^verbatim>\<open>main\<close>; \<open>cap\<close> is \<open>None\<close> until \<^verbatim>\<open>open_camera\<close> has
  returned.\<close>

definition cleanup :: "int option \<Rightarrow> 'img event list" where
  "cleanup cap =
     [Log INFO ''Starting cleanup...'']
     @ (case cap of
          None \<Rightarrow> []
        | Some c \<Rightarrow> [Log INFO ''Releasing camera resource...'', Release])
     @ [Log INFO ''Destroying OpenCV windows...'', DestroyAllWindows,
        Log INFO ''Application finished.'']"

text \<open>The \<^verbatim>\<open>try\<close> block of \<^verbatim>\<open>main\<close>: the events, the variable \<^verbatim>\<open>cap\<close> at its end,
  and how it ends.\<close>

definition main_try ::
  "'img cv2 \<Rightarrow> startup \<Rightarrow> 'img iter_env list \<Rightarrow> 'img event list \<times> int option \<times> outcome" where
  "main_try cv st envs =
     (case initialize_rekognition st of
        (evs1, Inl e) \<Rightarrow> (evs1, None, Propagated e)
      | (evs1, Inr rek_client) \<Rightarrow>
          (case open_camera st 0 of
             (evs2, Inl e) \<Rightarrow> (evs1 @ evs2, None, Propagated e)
           | (evs2, Inr cap) \<Rightarrow>
               (case process_frames cv None envs of
                  (evs3, out) \<Rightarrow> (evs1 @ evs2 @ evs3, Some cap, out))))"

text \<open>
  \<^verbatim>\<open>main\<close>: the handlers in the order of the source (\<^verbatim>\<open>RuntimeError\<close> first, then
  \<^verbatim>\<open>Exception\<close>), then the \<^verbatim>\<open>finally\<close> block, which also runs when neither handler
  catches; the exception then goes on. While the loop is running, nothing after it
  has happened.
\<close>

definition main :: "'img cv2 \<Rightarrow> startup \<Rightarrow> 'img iter_env list \<Rightarrow> 'img event list \<times> outcome" where
  "main cv st envs =
     (case main_try cv st envs of
        (evs, cap, Running) \<Rightarrow> (evs, Running)
      | (evs, cap, Returned) \<Rightarrow> (evs @ cleanup cap, Returned)
      | (evs, cap, Propagated e) \<Rightarrow>
          if is_RuntimeError e then
            (evs @ [Log ERROR (''Runtime Error: '' @ message e)] @ cleanup cap, Returned)
          else if is_Exception e then
            (evs @ [Log ERROR (''An unexpected error occurred: '' @ message e)] @ cleanup cap,
             Returned)
          else (evs @ cleanup cap, Propagated e))"

section \<open>Notions used in the statements\<close>

subsection \<open>Detections and what the overlay should hold\<close>

text \<open>
  A detection in the sense of the specification, \<open>{name, confidence}\<close>, is a label dict
  with both keys; \<open>rendered\<close> is the text \<^verbatim>\<open>"{name} ({confidence:.1f}%)"\<close> that the
  specification asks for.
\<close>

definition detection :: "string \<times> pyfloat \<Rightarrow> label" where
  "detection d = \<lparr>Name = Some (fst d), Confidence = Some (snd d)\<rparr>"

definition rendered :: "string \<times> pyfloat \<Rightarrow> string" where
  "rendered d = fst d @ '' ('' @ format_1f (snd d) @ ''%)''"

text \<open>
  The vertical positions as the specification describes them: the first text is placed
  at \<open>y\<close>, and each next one lower by the height and the baseline of the text before it
  plus 20. \<open>label_ops\<close> is the filled box and the text of one label placed at \<open>y\<close>.
\<close>

fun layout :: "'img cv2 \<Rightarrow> int \<Rightarrow> string list \<Rightarrow> (int \<times> string) list" where
  "layout cv y [] = []"
| "layout cv y (t # ts) =
     (case getTextSize cv t FONT_HERSHEY_SIMPLEX font_scale font_thickness of
        ((w, h), baseline) \<Rightarrow> (y, t) # layout cv (y + (h + baseline + 20)) ts)"

fun label_ops :: "'img cv2 \<Rightarrow> int \<times> string \<Rightarrow> draw_op list" where
  "label_ops cv (y, t) =
     (case getTextSize cv t FONT_HERSHEY_SIMPLEX font_scale font_thickness of
        ((w, h), baseline) \<Rightarrow>
          [Rectangle (5, y - h - 5) (5 + w + 5, y + baseline + 5) (0, 0, 0) (- 1),
           PutText t (10, y + baseline div 2) FONT_HERSHEY_SIMPLEX font_scale (0, 255, 0) 1])"

text \<open>The boxes (by their two corners) and the texts among drawing operations, in
  drawing order; \<open>bottom\<close> is the lower edge of the box of a label placed at \<open>y\<close>.\<close>

fun boxes :: "draw_op list \<Rightarrow> (point \<times> point) list" where
  "boxes [] = []"
| "boxes (Rectangle p1 p2 c th # ops) = (p1, p2) # boxes ops"
| "boxes (PutText t org f s c th # ops) = boxes ops"

fun texts :: "draw_op list \<Rightarrow> string list" where
  "texts [] = []"
| "texts (Rectangle p1 p2 c th # ops) = texts ops"
| "texts (PutText t org f s c th # ops) = t # texts ops"

definition bottom :: "'img cv2 \<Rightarrow> int \<times> string \<Rightarrow> int" where
  "bottom cv p =
     fst p + snd (getTextSize cv (snd p) FONT_HERSHEY_SIMPLEX font_scale font_thickness) + 5"

text \<open>What the statements about positions ask of OpenCV: a text has no negative
  height and no negative baseline.\<close>

definition sizes_nonneg :: "'img cv2 \<Rightarrow> bool" where
  "sizes_nonneg cv =
     (\<forall>t. 0 \<le> snd (fst (getTextSize cv t FONT_HERSHEY_SIMPLEX font_scale font_thickness))
        \<and> 0 \<le> snd (getTextSize cv t FONT_HERSHEY_SIMPLEX font_scale font_thickness))"

subsection \<open>Numerals with one decimal\<close>

text \<open>
  What \<open>formatted to one decimal place\<close> asks of a text, said without the formatter:
  the text is read back as a number, and that number is compared with the float.
  \<open>digit_val\<close> reads a decimal digit. \<open>numeral_rev\<close> reads a decimal numeral given with
  its last digit first; it accepts digits only, at least one, and no leading zero but
  for the numeral \<open>0\<close> itself. \<open>read_tenths\<close> reads an integer part, a point and exactly one
  fractional digit, and gives the number in tenths; \<open>read_1f\<close> reads an optional minus
  sign before that.
\<close>

definition digit_val :: "char \<Rightarrow> nat option" where
  "digit_val c = (if c \<in> set ''0123456789'' then Some (of_char c - 48) else None)"

fun numeral_rev :: "string \<Rightarrow> nat option" where
  "numeral_rev [] = None"
| "numeral_rev [c] = digit_val c"
| "numeral_rev (c # c' # cs) =
     (case (digit_val c, numeral_rev (c' # cs)) of
        (Some d, Some n) \<Rightarrow> if n = 0 then None else Some (10 * n + d)
      | _ \<Rightarrow> None)"

definition read_nat :: "string \<Rightarrow> nat option" where
  "read_nat s = numeral_rev (rev s)"

definition read_tenths :: "string \<Rightarrow> nat option" where
  "read_tenths u =
     (case rev u of
        f # p # ip \<Rightarrow>
          if p = CHR ''.'' then
            (case (read_nat (rev ip), digit_val f) of
               (Some q, Some r) \<Rightarrow> Some (10 * q + r)
             | _ \<Rightarrow> None)
          else None
      | _ \<Rightarrow> None)"

definition read_1f :: "string \<Rightarrow> (bool \<times> nat) option" where
  "read_1f s =
     (case s of
        [] \<Rightarrow> None
      | c # r \<Rightarrow>
          if c = CHR ''-'' then map_option (Pair True) (read_tenths r)
          else map_option (Pair False) (read_tenths s))"

text \<open>
  \<open>t\<close> tenths is the number with one decimal nearest to the magnitude \<open>m * 2 ^ e\<close>: with
  \<open>n / d\<close> that magnitude in tenths, \<open>t\<close> is at most one half away from it, and when it
  is exactly one half away (a tie) \<open>t\<close> is even. \<open>one_decimal c num\<close>: the text \<open>num\<close> is
  the finite float \<open>c\<close> to one decimal place, that is, it reads as a numeral with one
  fractional digit that has the sign of \<open>c\<close> and is nearest to its magnitude.
\<close>

definition nearest_tenth :: "nat \<Rightarrow> int \<Rightarrow> nat \<Rightarrow> bool" where
  "nearest_tenth m e t =
     (let n = 10 * int m * 2 ^ nat e; d = 2 ^ nat (- e); err = \<bar>n - int t * d\<bar>
      in 2 * err \<le> d \<and> (2 * err = d \<longrightarrow> even t))"

definition one_decimal :: "pyfloat \<Rightarrow> string \<Rightarrow> bool" where
  "one_decimal c num =
     (case c of
        Finite s m e \<Rightarrow>
          (case read_1f num of
             Some (sg, t) \<Rightarrow> sg = s \<and> nearest_tenth m e t
           | None \<Rightarrow> False)
      | _ \<Rightarrow> False)"

subsection \<open>What a trace shows\<close>

text \<open>
  The inference requests sent, the frames shown, and the number of times the exit key
  was polled, read off a trace in order.
\<close>

definition requests :: "'img event list \<Rightarrow> request list" where
  "requests evs = List.map_filter (\<lambda>ev. case ev of DetectLabels r \<Rightarrow> Some r | _ \<Rightarrow> None) evs"

definition shown :: "'img event list \<Rightarrow> 'img frame list" where
  "shown evs = List.map_filter (\<lambda>ev. case ev of Imshow w fr \<Rightarrow> Some fr | _ \<Rightarrow> None) evs"

definition key_checks :: "'img event list \<Rightarrow> nat" where
  "key_checks evs = length (filter (\<lambda>ev. case ev of WaitKey d \<Rightarrow> True | _ \<Rightarrow> False) evs)"

text \<open>
  A startup that reaches the loop: both credentials are set, the Rekognition client is
  created and the camera opens. \<open>startup_events\<close> is what \<^verbatim>\<open>main\<close> does before the loop.
\<close>

definition startup_ok :: "startup \<Rightarrow> bool" where
  "startup_ok st =
     (\<not> falsy (AWS_ACCESS_KEY_ID st) \<and> \<not> falsy (AWS_SECRET_ACCESS_KEY st)
      \<and> boto3_client st = Inr () \<and> isOpened st)"

definition startup_events :: "startup \<Rightarrow> 'img event list" where
  "startup_events st = fst (initialize_rekognition st) @ fst (open_camera st 0)"

subsection \<open>Concrete inputs\<close>

text \<open>
  An OpenCV whose JPEG encoder succeeds and whose texts are 11 pixels wide per
  character, 14 high, with baseline 6; and the two detections of the scenario of the
  specification: the double nearest to 91.2 is \<open>6417629469002957 / 2 ^ 46\<close>, and 78.5 is
  \<open>157 / 2\<close>.
\<close>

definition cv0 :: "nat cv2" where
  "cv0 = \<lparr>imencode = (\<lambda>fr. Inr (True, [255, 216, 255])),
          getTextSize = (\<lambda>t f s th. ((11 * int (length t), 14), 6))\<rparr>"

definition cat :: "string \<times> pyfloat" where
  "cat = (''Cat'', Finite False 6417629469002957 (- 46))"

definition table :: "string \<times> pyfloat" where
  "table = (''Table'', Finite False 157 (- 1))"

text \<open>
  Rounds of the loop: one in which everything succeeds and no key is pressed; one in
  which the key code has \<open>q\<close> in its low byte; one in which Rekognition throttles; one in
  which the camera has no frame; one whose response has no \<^verbatim>\<open>'Labels'\<close>; one whose
  response has a label without its keys. And an OpenCV whose JPEG encoder fails, a
  startup that reaches the loop and one whose camera does not open.
\<close>

definition env_ok :: "nat iter_env" where
  "env_ok = \<lparr>cap_read = Inr (True, 7),
             detect_labels = Inr \<lparr>Labels = Some [detection cat, detection table]\<rparr>,
             imshow = Inr (), waitKey = Inr (- 1)\<rparr>"

definition env_q :: "nat iter_env" where
  "env_q = env_ok\<lparr>waitKey := Inr 1048689\<rparr>"

definition env_throttled :: "nat iter_env" where
  "env_throttled =
     env_ok\<lparr>detect_labels := Inl (Exc ExceptionK ''ThrottlingException'' ''Rate exceeded'')\<rparr>"

definition env_eos :: "nat iter_env" where
  "env_eos = env_ok\<lparr>cap_read := Inr (False, 0)\<rparr>"

definition env_no_Labels :: "nat iter_env" where
  "env_no_Labels = env_ok\<lparr>detect_labels := Inr \<lparr>Labels = None\<rparr>\<rparr>"

definition env_bad_label :: "nat iter_env" where
  "env_bad_label =
     env_ok\<lparr>detect_labels := Inr \<lparr>Labels = Some [\<lparr>Name = None, Confidence = None\<rparr>]\<rparr>\<rparr>"

definition cv_encode_fails :: "nat cv2" where
  "cv_encode_fails = cv0\<lparr>imencode := (\<lambda>fr. Inr (False, []))\<rparr>"

definition st0 :: startup where
  "st0 = \<lparr>AWS_ACCESS_KEY_ID = Some ''AKIAEXAMPLE'', AWS_SECRET_ACCESS_KEY = Some ''secret'',
          REGION_NAME = ''us-east-1'', boto3_client = Inr (), isOpened = True\<rparr>"

definition st_no_camera :: startup where
  "st_no_camera = st0\<lparr>isOpened := False\<rparr>"

section \<open>The overlay renderer\<close>

lemma str_nat_digit: "n < 10 \<Longrightarrow> str_nat n = [digit n]"
  by (simp add: str_nat.simps)

lemma str_nat_step: "10 \<le> n \<Longrightarrow> str_nat n = str_nat (n div 10) @ [digit (n mod 10)]"
  by (subst str_nat.simps) simp

lemma label_text_detection: "label_text (detection d) = Inr (rendered d)"
  by (simp add: label_text_def detection_def rendered_def)

text \<open>The loop of \<^verbatim>\<open>draw_labels\<close> appends, for each detection in turn, the box and the
  text of its label, at the positions of \<open>layout\<close>.\<close>

lemma draw_loop_detections:
  "draw_loop cv y fr (map detection D) =
     Inr (fr\<lparr>overlay := overlay fr @ concat (map (label_ops cv) (layout cv y (map rendered D)))\<rparr>)"
proof (induction D arbitrary: y fr)
  case Nil
  show ?case by simp
next
  case (Cons d D)
  show ?case
    by (simp add: label_text_detection Cons.IH rectangle_def putText_def margin_def dy_def
        bg_color_def text_color_def FILLED_def font_thickness_def split: prod.splits)
qed

lemma length_layout: "length (layout cv y ts) = length ts"
  by (induction ts arbitrary: y) (auto split: prod.splits)

lemma map_snd_layout: "map snd (layout cv y ts) = ts"
  by (induction ts arbitrary: y) (auto split: prod.splits)

lemma boxes_label_ops:
  "boxes (label_ops cv p @ ops) =
     (case p of (y, t) \<Rightarrow>
        case getTextSize cv t FONT_HERSHEY_SIMPLEX font_scale font_thickness of
          ((w, h), baseline) \<Rightarrow> ((5, y - h - 5), (5 + w + 5, y + baseline + 5))) # boxes ops"
  by (cases p) (auto split: prod.splits)

lemma texts_label_ops: "texts (label_ops cv p @ ops) = snd p # texts ops"
  by (cases p) (auto split: prod.splits)

lemma length_boxes: "length (boxes (concat (map (label_ops cv) ps))) = length ps"
  by (induction ps) (auto simp: boxes_label_ops simp del: label_ops.simps)

lemma texts_concat: "texts (concat (map (label_ops cv) ps)) = map snd ps"
  by (induction ps) (auto simp: texts_label_ops simp del: label_ops.simps)

lemma boxes_concat:
  "map (\<lambda>b. snd (snd b)) (boxes (concat (map (label_ops cv) ps))) = map (bottom cv) ps"
  by (induction ps)
    (auto simp: boxes_label_ops bottom_def simp del: label_ops.simps split: prod.splits)

text \<open>No position of a layout is above its starting position.\<close>

lemma layout_lower: "sizes_nonneg cv \<Longrightarrow> p \<in> set (layout cv y ts) \<Longrightarrow> y \<le> fst p"
proof (induction ts arbitrary: y)
  case Nil
  then show ?case by simp
next
  case (Cons t ts)
  obtain w h b
    where g: "getTextSize cv t FONT_HERSHEY_SIMPLEX font_scale font_thickness = ((w, h), b)"
    by (metis prod.exhaust)
  from Cons.prems(1) g have hb: "0 \<le> h" "0 \<le> b"
    unfolding sizes_nonneg_def by (metis fst_conv snd_conv)+
  from Cons.prems(2) g consider "p = (y, t)" | "p \<in> set (layout cv (y + (h + b + 20)) ts)"
    by auto
  then show ?case
  proof cases
    case 1
    then show ?thesis by simp
  next
    case 2
    from Cons.IH[OF Cons.prems(1) 2] hb show ?thesis by simp
  qed
qed

lemma layout_sorted: "sizes_nonneg cv \<Longrightarrow> sorted_wrt (<) (map fst (layout cv y ts))"
proof (induction ts arbitrary: y)
  case Nil
  then show ?case by simp
next
  case (Cons t ts)
  obtain w h b
    where g: "getTextSize cv t FONT_HERSHEY_SIMPLEX font_scale font_thickness = ((w, h), b)"
    by (metis prod.exhaust)
  from Cons.prems g have hb: "0 \<le> h" "0 \<le> b"
    unfolding sizes_nonneg_def by (metis fst_conv snd_conv)+
  have "\<forall>p \<in> set (layout cv (y + (h + b + 20)) ts). y < fst p"
    using layout_lower[OF Cons.prems] hb by fastforce
  with Cons.IH[OF Cons.prems] g show ?case by simp
qed

lemma layout_bottoms: "sizes_nonneg cv \<Longrightarrow> sorted_wrt (<) (map (bottom cv) (layout cv y ts))"
proof (induction ts arbitrary: y)
  case Nil
  then show ?case by simp
next
  case (Cons t ts)
  obtain w h b
    where g: "getTextSize cv t FONT_HERSHEY_SIMPLEX font_scale font_thickness = ((w, h), b)"
    by (metis prod.exhaust)
  from Cons.prems g have hb: "0 \<le> h" "0 \<le> b"
    unfolding sizes_nonneg_def by (metis fst_conv snd_conv)+
  have "bottom cv (y, t) < bottom cv p" if "p \<in> set (layout cv (y + (h + b + 20)) ts)" for p
  proof -
    from layout_lower[OF Cons.prems that] have "y + (h + b + 20) \<le> fst p" .
    moreover from Cons.prems
    have "0 \<le> snd (getTextSize cv (snd p) FONT_HERSHEY_SIMPLEX font_scale font_thickness)"
      unfolding sizes_nonneg_def by blast
    ultimately show ?thesis using hb g by (simp add: bottom_def)
  qed
  with Cons.IH[OF Cons.prems] g show ?case by simp
qed

lemma rendered_cat: "rendered cat = ''Cat (91.2%)''"
  by (simp add: rendered_def cat_def tenths_def round_half_even_def Let_def digit_def
      str_nat_digit str_nat_step)

lemma rendered_table: "rendered table = ''Table (78.5%)''"
  by (simp add: rendered_def table_def tenths_def round_half_even_def Let_def digit_def
      str_nat_digit str_nat_step)

lemma sizes_nonneg_cv0: "sizes_nonneg cv0"
  by (simp add: sizes_nonneg_def cv0_def)

text \<open>
  \<^bold>\<open>C2.\<close> For every frame and every sequence \<open>D\<close> of detections, \<^verbatim>\<open>draw_labels\<close>
  returns the frame with, appended to what was drawn on it, one filled box and one text
  per detection, in the order of \<open>D\<close>: there are \<open>length D\<close> boxes, and the texts are
  those of \<open>D\<close> in order. The positions start at 30 and grow by height + baseline + 20
  per label; when OpenCV reports no negative text size, each position is strictly
  greater than the one before, and so is the lower edge of each box.
\<close>

theorem draw_labels_boxes:
  "draw_labels cv fr (map detection D) =
     Inr (fr\<lparr>overlay := overlay fr @ concat (map (label_ops cv) (layout cv 30 (map rendered D)))\<rparr>)
   \<and> length (boxes (concat (map (label_ops cv) (layout cv 30 (map rendered D))))) = length D
   \<and> texts (concat (map (label_ops cv) (layout cv 30 (map rendered D)))) = map rendered D
   \<and> (sizes_nonneg cv \<longrightarrow>
        sorted_wrt (<) (map fst (layout cv 30 (map rendered D)))
        \<and> sorted_wrt (<)
            (map (\<lambda>b. snd (snd b))
               (boxes (concat (map (label_ops cv) (layout cv 30 (map rendered D)))))))"
  by (simp add: draw_labels_def draw_loop_detections length_boxes length_layout texts_concat
      map_snd_layout layout_sorted boxes_concat layout_bottoms)

theorem draw_labels_boxes_witness:
  "sizes_nonneg cv0
   \<and> draw_labels cv0 \<lparr>pixels = 0, overlay = []\<rparr> (map detection [cat, table]) =
       Inr \<lparr>pixels = 0, overlay =
         [Rectangle (5, 11) (131, 41) (0, 0, 0) (- 1),
          PutText ''Cat (91.2%)'' (10, 33) FONT_HERSHEY_SIMPLEX font_scale (0, 255, 0) 1,
          Rectangle (5, 51) (153, 81) (0, 0, 0) (- 1),
          PutText ''Table (78.5%)'' (10, 73) FONT_HERSHEY_SIMPLEX font_scale (0, 255, 0) 1]\<rparr>
   \<and> sorted_wrt (<) (map fst (layout cv0 30 (map rendered [cat, table])))"
  using draw_labels_boxes [of cv0 "\<lparr>pixels = 0, overlay = []\<rparr>" "[cat, table]"] sizes_nonneg_cv0
  by (simp add: rendered_cat rendered_table cv0_def)

lemma digit_val_digit: "d < 10 \<Longrightarrow> digit_val (digit d) = Some d"
proof -
  assume "d < 10"
  then have "d \<in> {0, 1, 2, 3, 4, 5, 6, 7, 8, 9}" by auto
  then show ?thesis by (auto simp: digit_val_def digit_def)
qed

lemma digit_val_Some: "digit_val c = Some d \<Longrightarrow> d < 10 \<and> c = digit d"
  by (auto simp: digit_val_def digit_def split: if_splits)

lemma digit_not_minus: "d < 10 \<Longrightarrow> digit d \<noteq> CHR ''-''"
proof -
  assume "d < 10"
  then have "d \<in> {0, 1, 2, 3, 4, 5, 6, 7, 8, 9}" by auto
  then show ?thesis by (auto simp: digit_def)
qed

lemma str_nat_nonempty: "str_nat n \<noteq> []"
  by (subst str_nat.simps) simp

lemma numeral_rev_str_nat: "numeral_rev (rev (str_nat n)) = Some n"
proof (induction n rule: str_nat.induct)
  case (1 n)
  show ?case
  proof (cases "n < 10")
    case True
    then show ?thesis by (simp add: str_nat_digit digit_val_digit)
  next
    case False
    obtain c cs where r: "rev (str_nat (n div 10)) = c # cs"
      using str_nat_nonempty [of "n div 10"] by (cases "rev (str_nat (n div 10))") simp_all
    from False have ih: "numeral_rev (c # cs) = Some (n div 10)"
      using 1 r by simp
    from False have "str_nat n = str_nat (n div 10) @ [digit (n mod 10)]"
      by (simp add: str_nat_step)
    with False show ?thesis
      by (simp add: r ih digit_val_digit)
  qed
qed

lemma numeral_rev_Some: "numeral_rev r = Some n \<Longrightarrow> r = rev (str_nat n)"
proof (induction r arbitrary: n rule: numeral_rev.induct)
  case 1
  then show ?case by simp
next
  case (2 c)
  then show ?case using digit_val_Some [of c n] by (simp add: str_nat_digit)
next
  case (3 c c' cs)
  from "3.prems" obtain d n' where d: "digit_val c = Some d"
    and n': "numeral_rev (c' # cs) = Some n'" and pos: "n' \<noteq> 0" and n: "n = 10 * n' + d"
    by (auto split: option.splits if_splits)
  from digit_val_Some [OF d] have d10: "d < 10" and c: "c = digit d" by simp_all
  from "3.IH" [OF n'] have hi: "c' # cs = rev (str_nat n')" .
  from pos n d10 have "10 \<le> n" "n div 10 = n'" "n mod 10 = d" by simp_all
  then have "str_nat n = str_nat n' @ [digit d]"
    by (simp add: str_nat_step)
  with hi c show ?case by simp
qed

lemma read_nat_iff: "read_nat s = Some n \<longleftrightarrow> s = str_nat n"
proof
  assume "read_nat s = Some n"
  then have "rev s = rev (str_nat n)"
    unfolding read_nat_def by (rule numeral_rev_Some)
  then show "s = str_nat n" by simp
next
  assume "s = str_nat n"
  then show "read_nat s = Some n" by (simp add: read_nat_def numeral_rev_str_nat)
qed

lemma hd_str_nat: "hd (str_nat n) \<noteq> CHR ''-''"
proof (induction n rule: str_nat.induct)
  case (1 n)
  show ?case
  proof (cases "n < 10")
    case True
    then show ?thesis by (simp add: str_nat_digit digit_not_minus)
  next
    case False
    with 1 show ?thesis
      by (simp add: str_nat_step str_nat_nonempty)
  qed
qed

lemma read_tenths_encode:
  "r < 10 \<Longrightarrow> read_tenths (str_nat q @ ''.'' @ [digit r]) = Some (10 * q + r)"
  by (simp add: read_tenths_def digit_val_digit read_nat_def numeral_rev_str_nat)

lemma read_tenths_aux:
  "(case v of
      f # p # ip \<Rightarrow>
        if p = CHR ''.'' then
          (case (read_nat (rev ip), digit_val f) of
             (Some q, Some r) \<Rightarrow> Some (10 * q + r)
           | _ \<Rightarrow> None)
        else None
    | _ \<Rightarrow> None) = Some t \<Longrightarrow>
   \<exists>f ip q r. v = f # CHR ''.'' # ip \<and> read_nat (rev ip) = Some q
      \<and> digit_val f = Some r \<and> t = 10 * q + r"
  by (auto split: list.splits if_splits option.splits)

lemma read_tenths_decode:
  assumes "read_tenths u = Some t"
  shows "u = str_nat (t div 10) @ ''.'' @ [digit (t mod 10)]"
proof -
  from read_tenths_aux [of "rev u" t] assms
  obtain f ip q r where ru: "rev u = f # CHR ''.'' # ip"
    and q: "read_nat (rev ip) = Some q" and f: "digit_val f = Some r" and t: "t = 10 * q + r"
    unfolding read_tenths_def by blast
  from digit_val_Some [OF f] have r10: "r < 10" and fd: "f = digit r" by simp_all
  from q have ip: "rev ip = str_nat q" by (simp add: read_nat_iff)
  from ru have "rev (rev u) = rev (f # CHR ''.'' # ip)" by (rule arg_cong)
  then have "u = rev ip @ [CHR ''.'', f]" by simp
  with ip fd have "u = str_nat q @ ''.'' @ [digit r]" by simp
  moreover from t r10 have "t div 10 = q" "t mod 10 = r" by simp_all
  ultimately show ?thesis by simp
qed

lemma read_tenths_iff:
  "read_tenths u = Some t \<longleftrightarrow> u = str_nat (t div 10) @ ''.'' @ [digit (t mod 10)]"
proof
  assume "read_tenths u = Some t"
  then show "u = str_nat (t div 10) @ ''.'' @ [digit (t mod 10)]"
    by (rule read_tenths_decode)
next
  assume "u = str_nat (t div 10) @ ''.'' @ [digit (t mod 10)]"
  then show "read_tenths u = Some t"
    using read_tenths_encode [of "t mod 10" "t div 10"] by simp
qed

lemma read_1f_iff:
  "read_1f num = Some (sg, t) \<longleftrightarrow>
   num = (if sg then ''-'' else []) @ str_nat (t div 10) @ ''.'' @ [digit (t mod 10)]"
proof (cases num)
  case Nil
  then show ?thesis by (simp add: read_1f_def str_nat_nonempty)
next
  case (Cons c r)
  obtain d ds where s: "str_nat (t div 10) = d # ds"
    using str_nat_nonempty [of "t div 10"] by (cases "str_nat (t div 10)") simp_all
  from hd_str_nat [of "t div 10"] s have d: "d \<noteq> CHR ''-''" by simp
  show ?thesis
  proof (cases "c = CHR ''-''")
    case True
    with Cons d show ?thesis
      by (auto simp: read_1f_def read_tenths_iff s)
  next
    case False
    with Cons d show ?thesis
      by (auto simp: read_1f_def read_tenths_iff s)
  qed
qed

lemma round_half_even_nearest:
  fixes n d t :: nat
  assumes d: "0 < d"
  shows "(2 * \<bar>int n - int t * int d\<bar> \<le> int d
           \<and> (2 * \<bar>int n - int t * int d\<bar> = int d \<longrightarrow> even t))
         \<longleftrightarrow> t = round_half_even n d"
proof -
  define q where "q = n div d"
  define r where "r = n mod d"
  have n: "n = q * d + r" and r: "r < d"
    using d by (simp_all add: q_def r_def)
  have rhe: "round_half_even n d = (if d < 2 * r \<or> (2 * r = d \<and> odd q) then q + 1 else q)"
    by (simp add: round_half_even_def Let_def q_def r_def)
  consider "t = q" | "t = q + 1" | "t + 1 \<le> q" | "q + 2 \<le> t"
    by linarith
  then show ?thesis
  proof cases
    case 1
    have "int n - int t * int d = int r" by (simp add: n 1)
    then show ?thesis
      using r by (auto simp: rhe 1)
  next
    case 2
    have "int n - int t * int d = int r - int d" by (simp add: n 2 algebra_simps)
    then show ?thesis
      using r by (auto simp: rhe 2)
  next
    case 3
    then have "(t + 1) * d \<le> q * d" by (rule mult_le_mono1)
    then have "int ((t + 1) * d) \<le> int (q * d)" by (simp only: of_nat_le_iff)
    then have "int t * int d + int d \<le> int q * int d" by (simp add: algebra_simps)
    then have "int d + int r \<le> int n - int t * int d" by (simp add: n)
    moreover define x where "x = int n - int t * int d"
    ultimately have "int d + int r \<le> x" by simp
    with d have "\<not> 2 * \<bar>x\<bar> \<le> int d" by linarith
    then have "\<not> 2 * \<bar>int n - int t * int d\<bar> \<le> int d" by (simp add: x_def)
    moreover from 3 have "t \<noteq> round_half_even n d" by (simp add: rhe)
    ultimately show ?thesis by blast
  next
    case 4
    then have "(q + 2) * d \<le> t * d" by (rule mult_le_mono1)
    then have "int ((q + 2) * d) \<le> int (t * d)" by (simp only: of_nat_le_iff)
    then have "int q * int d + 2 * int d \<le> int t * int d" by (simp add: algebra_simps)
    then have "int n - int t * int d \<le> int r - 2 * int d" by (simp add: n)
    moreover define x where "x = int n - int t * int d"
    ultimately have "x \<le> int r - 2 * int d" by simp
    with r d have "\<not> 2 * \<bar>x\<bar> \<le> int d" by linarith
    then have "\<not> 2 * \<bar>int n - int t * int d\<bar> \<le> int d" by (simp add: x_def)
    moreover from 4 have "t \<noteq> round_half_even n d" by (simp add: rhe)
    ultimately show ?thesis by blast
  qed
qed

lemma nearest_tenth_iff: "nearest_tenth m e t \<longleftrightarrow> t = tenths m e"
proof (cases "0 \<le> e")
  case True
  define a where "a = 10 * m * 2 ^ nat e"
  have ia: "10 * int m * 2 ^ nat e = int a" by (simp add: a_def)
  have "(2 * \<bar>int a - int t\<bar> \<le> 1) = (t = a)" by arith
  moreover have "2 * \<bar>int a - int t\<bar> \<noteq> 1" by presburger
  ultimately show ?thesis
    using True by (simp add: nearest_tenth_def tenths_def Let_def ia) (simp add: a_def)
next
  case False
  then have "nat e = 0" by simp
  with False round_half_even_nearest [of "2 ^ nat (- e)" "10 * m" t]
  show ?thesis
    by (simp add: nearest_tenth_def tenths_def Let_def)
qed

lemma one_decimal_iff: "one_decimal (Finite s m e) num \<longleftrightarrow> num = format_1f (Finite s m e)"
proof -
  have r: "tenths m e mod 10 < 10" by simp
  have "one_decimal (Finite s m e) num \<longleftrightarrow> read_1f num = Some (s, tenths m e)"
    by (cases "read_1f num") (auto simp: one_decimal_def nearest_tenth_iff)
  also have "\<dots> \<longleftrightarrow> num = format_1f (Finite s m e)"
    by (simp add: read_1f_iff str_nat_digit [OF r])
  finally show ?thesis .
qed

lemma texts_rendered:
  "map rendered D = map2 (\<lambda>d num. fst d @ '' ('' @ num @ ''%)'') D (map (\<lambda>d. format_1f (snd d)) D)"
  by (induction D) (simp_all add: rendered_def)

lemma draw_labels_cat_table:
  "draw_labels cv0 \<lparr>pixels = p, overlay = []\<rparr> [detection cat, detection table] =
     Inr \<lparr>pixels = p, overlay =
       [Rectangle (5, 11) (131, 41) (0, 0, 0) (- 1),
        PutText ''Cat (91.2%)'' (10, 33) FONT_HERSHEY_SIMPLEX font_scale (0, 255, 0) 1,
        Rectangle (5, 51) (153, 81) (0, 0, 0) (- 1),
        PutText ''Table (78.5%)'' (10, 73) FONT_HERSHEY_SIMPLEX font_scale (0, 255, 0) 1]\<rparr>"
  using draw_loop_detections [of cv0 30 "\<lparr>pixels = p, overlay = []\<rparr>" "[cat, table]"]
  by (simp add: draw_labels_def rendered_cat rendered_table cv0_def)

text \<open>
  \<^bold>\<open>C7.\<close> For every frame and every sequence \<open>D\<close> of detections, the texts that
  \<^verbatim>\<open>draw_labels\<close> draws are, in order, for each detection its name, a space, and in
  parentheses a numeral followed by a percent sign; and for every detection whose
  confidence is a finite float, that numeral is the confidence to one decimal place: it
  is the one text that reads as a numeral with exactly one fractional digit, has the
  sign of the confidence and is nearest to it (a tie going to the even digit). For the
  detections Cat 91.2 and Table 78.5 the texts drawn are \<open>Cat (91.2%)\<close> then
  \<open>Table (78.5%)\<close>, each with its box, and when OpenCV reports no negative text size the
  second box ends strictly lower than the first.
\<close>

theorem rendered_text_format:
  "(\<exists>ops nums.
       draw_labels cv fr (map detection D) = Inr (fr\<lparr>overlay := overlay fr @ ops\<rparr>)
       \<and> length nums = length D
       \<and> texts ops = map2 (\<lambda>d num. fst d @ '' ('' @ num @ ''%)'') D nums
       \<and> (\<forall>i < length D. \<forall>s m e. snd (D ! i) = Finite s m e \<longrightarrow>
            (\<forall>num. one_decimal (Finite s m e) num \<longleftrightarrow> num = nums ! i)))
   \<and> (\<exists>ops. draw_labels cv fr [detection cat, detection table] =
               Inr (fr\<lparr>overlay := overlay fr @ ops\<rparr>)
        \<and> texts ops = [''Cat (91.2%)'', ''Table (78.5%)'']
        \<and> length (boxes ops) = 2
        \<and> (sizes_nonneg cv \<longrightarrow> snd (snd (boxes ops ! 0)) < snd (snd (boxes ops ! 1))))"
proof
  let ?ops = "concat (map (label_ops cv) (layout cv 30 (map rendered D)))"
  let ?nums = "map (\<lambda>d. format_1f (snd d)) D"
  have run: "draw_labels cv fr (map detection D) = Inr (fr\<lparr>overlay := overlay fr @ ?ops\<rparr>)"
    by (simp add: draw_labels_def draw_loop_detections)
  have len: "length ?nums = length D" by simp
  have tx: "texts ?ops = map2 (\<lambda>d num. fst d @ '' ('' @ num @ ''%)'') D ?nums"
    by (simp only: texts_concat map_snd_layout texts_rendered)
  have dec: "\<forall>i < length D. \<forall>s m e. snd (D ! i) = Finite s m e \<longrightarrow>
            (\<forall>num. one_decimal (Finite s m e) num \<longleftrightarrow> num = ?nums ! i)"
    by (simp add: one_decimal_iff)
  from run len tx dec
  show "\<exists>ops nums.
       draw_labels cv fr (map detection D) = Inr (fr\<lparr>overlay := overlay fr @ ops\<rparr>)
       \<and> length nums = length D
       \<and> texts ops = map2 (\<lambda>d num. fst d @ '' ('' @ num @ ''%)'') D nums
       \<and> (\<forall>i < length D. \<forall>s m e. snd (D ! i) = Finite s m e \<longrightarrow>
            (\<forall>num. one_decimal (Finite s m e) num \<longleftrightarrow> num = nums ! i))"
    by blast
next
  let ?ps = "layout cv 30 (map rendered [cat, table])"
  let ?ops = "concat (map (label_ops cv) ?ps)"
  have run: "draw_labels cv fr [detection cat, detection table] =
      Inr (fr\<lparr>overlay := overlay fr @ ?ops\<rparr>)"
    using draw_loop_detections [of cv 30 fr "[cat, table]"] by (simp add: draw_labels_def)
  have tx: "texts ?ops = [''Cat (91.2%)'', ''Table (78.5%)'']"
    by (simp only: texts_concat map_snd_layout) (simp add: rendered_cat rendered_table)
  have len: "length (boxes ?ops) = 2"
    by (simp only: length_boxes length_layout) simp
  have low: "snd (snd (boxes ?ops ! 0)) < snd (snd (boxes ?ops ! 1))" if "sizes_nonneg cv"
  proof -
    have "sorted_wrt (<) (map (\<lambda>b. snd (snd b)) (boxes ?ops))"
      by (simp only: boxes_concat layout_bottoms [OF that])
    moreover have i0: "0 < length (boxes ?ops)" and i1: "1 < length (boxes ?ops)"
      unfolding len by simp_all
    ultimately
    have "map (\<lambda>b. snd (snd b)) (boxes ?ops) ! 0 < map (\<lambda>b. snd (snd b)) (boxes ?ops) ! 1"
      using sorted_wrt_nth_less [of "(<)" "map (\<lambda>b. snd (snd b)) (boxes ?ops)" 0 1]
      by (simp only: length_map zero_less_one)
    then show ?thesis by (simp only: nth_map [OF i0] nth_map [OF i1])
  qed
  from run tx len low
  show "\<exists>ops. draw_labels cv fr [detection cat, detection table] =
               Inr (fr\<lparr>overlay := overlay fr @ ops\<rparr>)
        \<and> texts ops = [''Cat (91.2%)'', ''Table (78.5%)'']
        \<and> length (boxes ops) = 2
        \<and> (sizes_nonneg cv \<longrightarrow> snd (snd (boxes ops ! 0)) < snd (snd (boxes ops ! 1)))"
    by blast
qed

theorem rendered_text_format_witness:
  "sizes_nonneg cv0
   \<and> draw_labels cv0 \<lparr>pixels = 0, overlay = []\<rparr> (map detection [cat, table]) =
       Inr \<lparr>pixels = 0, overlay =
         [Rectangle (5, 11) (131, 41) (0, 0, 0) (- 1),
          PutText ''Cat (91.2%)'' (10, 33) FONT_HERSHEY_SIMPLEX font_scale (0, 255, 0) 1,
          Rectangle (5, 51) (153, 81) (0, 0, 0) (- 1),
          PutText ''Table (78.5%)'' (10, 73) FONT_HERSHEY_SIMPLEX font_scale (0, 255, 0) 1]\<rparr>
   \<and> one_decimal (Finite False 6417629469002957 (- 46)) ''91.2''
   \<and> one_decimal (Finite False 157 (- 1)) ''78.5''
   \<and> \<not> one_decimal (Finite False 157 (- 1)) ''78.4''
   \<and> \<not> one_decimal (Finite False 157 (- 1)) ''78.6''"
proof -
  let ?fr = "\<lparr>pixels = 0 :: nat, overlay = []\<rparr>"
  from rendered_text_format [of cv0 ?fr "[cat, table]"]
  obtain ops nums where
    run: "draw_labels cv0 ?fr (map detection [cat, table]) =
            Inr (?fr\<lparr>overlay := overlay ?fr @ ops\<rparr>)"
    and len: "length nums = length [cat, table]"
    and tx: "texts ops = map2 (\<lambda>d num. fst d @ '' ('' @ num @ ''%)'') [cat, table] nums"
    and dec: "\<forall>i < length [cat, table]. \<forall>s m e. snd ([cat, table] ! i) = Finite s m e \<longrightarrow>
            (\<forall>num. one_decimal (Finite s m e) num \<longleftrightarrow> num = nums ! i)"
    by blast
  have dl: "draw_labels cv0 ?fr (map detection [cat, table]) =
       Inr \<lparr>pixels = 0, overlay =
         [Rectangle (5, 11) (131, 41) (0, 0, 0) (- 1),
          PutText ''Cat (91.2%)'' (10, 33) FONT_HERSHEY_SIMPLEX font_scale (0, 255, 0) 1,
          Rectangle (5, 51) (153, 81) (0, 0, 0) (- 1),
          PutText ''Table (78.5%)'' (10, 73) FONT_HERSHEY_SIMPLEX font_scale (0, 255, 0) 1]\<rparr>"
    using draw_labels_cat_table [of 0] by simp
  from run dl have ops: "texts ops = [''Cat (91.2%)'', ''Table (78.5%)'']"
    by simp
  from len obtain a b where ab: "nums = [a, b]"
    by (cases nums; cases "tl nums") simp_all
  from tx ops have a: "a = ''91.2''" and b: "b = ''78.5''"
    by (simp_all add: ab cat_def table_def)
  from dec have "\<forall>num. one_decimal (Finite False 6417629469002957 (- 46)) num \<longleftrightarrow> num = nums ! 0"
    by (simp add: cat_def)
  then have c: "\<forall>num. one_decimal (Finite False 6417629469002957 (- 46)) num \<longleftrightarrow> num = ''91.2''"
    by (simp add: ab a)
  from dec have "\<forall>num. one_decimal (Finite False 157 (- 1)) num \<longleftrightarrow> num = nums ! 1"
    by (simp add: table_def)
  then have t: "\<forall>num. one_decimal (Finite False 157 (- 1)) num \<longleftrightarrow> num = ''78.5''"
    by (simp add: ab b)
  from dl c t sizes_nonneg_cv0 show ?thesis by simp
qed

section \<open>The session loop\<close>

lemma iteration_labels_indep:
  "fst (iteration cv l env) = fst (iteration cv l' env)
   \<and> snd (snd (iteration cv l env)) = snd (snd (iteration cv l' env))"
  by (simp add: iteration_def split: sum.splits prod.splits)

lemma process_frames_labels_indep: "process_frames cv l envs = process_frames cv l' envs"
proof (induction envs arbitrary: l l')
  case Nil
  show ?case by simp
next
  case (Cons env envs)
  obtain evs l1 c where a: "iteration cv l env = (evs, l1, c)"
    by (metis prod_cases3)
  obtain evs' l1' c' where b: "iteration cv l' env = (evs', l1', c')"
    by (metis prod_cases3)
  from iteration_labels_indep [of cv l env l'] a b have eq: "evs' = evs" "c' = c"
    by simp_all
  show ?case
    using Cons.IH [of l1 l1'] by (simp add: a b eq split: control.splits)
qed

lemma process_frames_append:
  "snd (process_frames cv l pre) = Running \<Longrightarrow>
   process_frames cv l (pre @ envs) =
     (fst (process_frames cv l pre) @ fst (process_frames cv l envs),
      snd (process_frames cv l envs))"
proof (induction pre arbitrary: l)
  case Nil
  show ?case by simp
next
  case (Cons env pre)
  obtain evs l1 c where a: "iteration cv l env = (evs, l1, c)"
    by (metis prod_cases3)
  from Cons.prems a have c: "c = Continue"
    by (cases c) (simp_all split: prod.splits)
  from Cons.prems a c have run: "snd (process_frames cv l1 pre) = Running"
    by (simp split: prod.splits)
  from Cons.IH [OF run] process_frames_labels_indep [of cv l1 envs l]
  show ?case
    by (simp add: a c split: prod.splits)
qed

lemma iteration_no_cleanup:
  "Release \<notin> set (fst (iteration cv l env))
   \<and> DestroyAllWindows \<notin> set (fst (iteration cv l env))"
  by (simp add: iteration_def displaying_results_def user_input_for_exit_def
      split: sum.splits prod.splits)

lemma process_frames_no_cleanup:
  "Release \<notin> set (fst (process_frames cv l envs))
   \<and> DestroyAllWindows \<notin> set (fst (process_frames cv l envs))"
proof (induction envs arbitrary: l)
  case Nil
  show ?case by simp
next
  case (Cons env envs)
  obtain evs l1 c where a: "iteration cv l env = (evs, l1, c)"
    by (metis prod_cases3)
  from iteration_no_cleanup [of cv l env] a
  have "Release \<notin> set evs" "DestroyAllWindows \<notin> set evs" by simp_all
  with Cons.IH [of l1] show ?case
    by (auto simp: a split: control.splits prod.splits)
qed

lemma count_Read_iteration: "count_list (fst (iteration cv l env)) Read = 1"
  by (simp add: iteration_def displaying_results_def user_input_for_exit_def
      split: sum.splits prod.splits)

lemma count_Read_running:
  "snd (process_frames cv l envs) = Running \<Longrightarrow>
   count_list (fst (process_frames cv l envs)) Read = length envs"
proof (induction envs arbitrary: l)
  case Nil
  show ?case by simp
next
  case (Cons env envs)
  obtain evs l1 c where a: "iteration cv l env = (evs, l1, c)"
    by (metis prod_cases3)
  from Cons.prems a have c: "c = Continue"
    by (cases c) (simp_all split: prod.splits)
  from Cons.prems a c have run: "snd (process_frames cv l1 envs) = Running"
    by (simp split: prod.splits)
  from count_Read_iteration [of cv l env] a have "count_list evs Read = 1" by simp
  with Cons.IH [OF run] show ?case
    by (auto simp: a c split: prod.splits)
qed


lemma process_frames_Continue:
  "iteration cv l env = (evs, l1, Continue) \<Longrightarrow>
   process_frames cv l (env # envs) =
     (evs @ fst (process_frames cv l envs), snd (process_frames cv l envs))"
  using process_frames_labels_indep [of cv l1 envs l] by (simp split: prod.splits)

text \<open>
  \<^bold>\<open>C1.\<close> A round in which \<^verbatim>\<open>detect_labels\<close> fails with an exception (an instance of
  \<^verbatim>\<open>Exception\<close>, as every error of the network, of authentication, of throttling or of
  response parsing is) logs the error and continues: the loop goes on with the next
  round, and after a trace that ends with such a round it is still running.
\<close>

theorem inference_failure_continues:
  assumes "cap_read env = Inr (True, px)"
    and "imencode cv \<lparr>pixels = px, overlay = []\<rparr> = Inr (True, buf)"
    and "detect_labels env = Inl e"
    and "is_Exception e"
  shows "iteration cv labels env =
           ([Read, Imencode \<lparr>pixels = px, overlay = []\<rparr>,
             Log INFO ''Calling Rekognition detect_labels API...'',
             DetectLabels \<lparr>Image = \<lparr>Bytes = buf\<rparr>, MaxLabels = 10, MinConfidence = 75\<rparr>,
             Log ERROR (''Error calling Rekognition API: '' @ message e)],
            labels, Continue)
         \<and> process_frames cv labels (env # envs) =
             (fst (iteration cv labels env) @ fst (process_frames cv labels envs),
              snd (process_frames cv labels envs))
         \<and> snd (process_frames cv labels [env]) = Running"
proof -
  have it: "iteration cv labels env =
           ([Read, Imencode \<lparr>pixels = px, overlay = []\<rparr>,
             Log INFO ''Calling Rekognition detect_labels API...'',
             DetectLabels \<lparr>Image = \<lparr>Bytes = buf\<rparr>, MaxLabels = 10, MinConfidence = 75\<rparr>,
             Log ERROR (''Error calling Rekognition API: '' @ message e)],
            labels, Continue)"
    using assms by (simp add: iteration_def)
  from process_frames_Continue [OF it, of envs] process_frames_Continue [OF it, of "[]"] it
  show ?thesis by simp
qed

theorem inference_failure_continues_witness:
  "is_Exception (Exc ExceptionK ''ThrottlingException'' ''Rate exceeded'')
   \<and> process_frames cv0 None [env_throttled] =
       ([Read, Imencode \<lparr>pixels = 7, overlay = []\<rparr>,
         Log INFO ''Calling Rekognition detect_labels API...'',
         DetectLabels \<lparr>Image = \<lparr>Bytes = [255, 216, 255]\<rparr>, MaxLabels = 10, MinConfidence = 75\<rparr>,
         Log ERROR ''Error calling Rekognition API: Rate exceeded''],
        Running)"
  using inference_failure_continues [of env_throttled 7 cv0 "[255, 216, 255]"
      "Exc ExceptionK ''ThrottlingException'' ''Rate exceeded''" None "[]"]
  by (simp add: env_throttled_def env_ok_def cv0_def is_Exception_def)

lemma requests_Nil: "requests [] = []"
  by (simp add: requests_def)

lemma requests_append: "requests (xs @ ys) = requests xs @ requests ys"
  by (simp add: requests_def map_filter_def)

text \<open>
  \<^bold>\<open>C3.\<close> A round in which \<^verbatim>\<open>cv2.imencode\<close> returns \<open>success = False\<close> logs a warning and
  continues with the next round; it sends no inference request.
\<close>

theorem encode_failure_skips_inference:
  assumes "cap_read env = Inr (True, px)"
    and "imencode cv \<lparr>pixels = px, overlay = []\<rparr> = Inr (False, buf)"
  shows "iteration cv labels env =
           ([Read, Imencode \<lparr>pixels = px, overlay = []\<rparr>, Log WARNING ''Failed to encode frame.''],
            labels, Continue)
         \<and> requests (fst (iteration cv labels env)) = []
         \<and> process_frames cv labels (env # envs) =
             (fst (iteration cv labels env) @ fst (process_frames cv labels envs),
              snd (process_frames cv labels envs))"
proof -
  have it: "iteration cv labels env =
           ([Read, Imencode \<lparr>pixels = px, overlay = []\<rparr>, Log WARNING ''Failed to encode frame.''],
            labels, Continue)"
    using assms by (simp add: iteration_def)
  from process_frames_Continue [OF it, of envs] it
  show ?thesis by (simp add: requests_def)
qed

theorem encode_failure_skips_inference_witness:
  "process_frames cv_encode_fails None [env_ok] =
     ([Read, Imencode \<lparr>pixels = 7, overlay = []\<rparr>, Log WARNING ''Failed to encode frame.''],
      Running)
   \<and> requests (fst (iteration cv_encode_fails None env_ok)) = []"
  using encode_failure_skips_inference [of env_ok 7 cv_encode_fails "[]" None "[]"]
  by (simp add: env_ok_def cv_encode_fails_def cv0_def requests_def)


lemma process_frames_Break:
  "iteration cv l env = (evs, l1, Break) \<Longrightarrow> process_frames cv l (env # envs) = (evs, Returned)"
  by simp

lemma process_frames_Raise:
  "iteration cv l env = (evs, l1, Raise e) \<Longrightarrow>
   process_frames cv l (env # envs) = (evs, Propagated e)"
  by simp

lemma requests_simps [simp]:
  "requests [] = []"
  "requests (DetectLabels r # evs) = r # requests evs"
  "requests (Log lv m # evs) = requests evs"
  "requests (Boto3Client a b c # evs) = requests evs"
  "requests (VideoCapture i # evs) = requests evs"
  "requests (Read # evs) = requests evs"
  "requests (Imencode fr # evs) = requests evs"
  "requests (Imshow w fr # evs) = requests evs"
  "requests (WaitKey d # evs) = requests evs"
  "requests (Release # evs) = requests evs"
  "requests (DestroyAllWindows # evs) = requests evs"
  by (simp_all add: requests_def)

lemma shown_simps [simp]:
  "shown [] = []"
  "shown (Imshow w fr # evs) = fr # shown evs"
  "shown (Log lv m # evs) = shown evs"
  "shown (Boto3Client a b c # evs) = shown evs"
  "shown (VideoCapture i # evs) = shown evs"
  "shown (Read # evs) = shown evs"
  "shown (Imencode fr # evs) = shown evs"
  "shown (DetectLabels r # evs) = shown evs"
  "shown (WaitKey d # evs) = shown evs"
  "shown (Release # evs) = shown evs"
  "shown (DestroyAllWindows # evs) = shown evs"
  by (simp_all add: shown_def)

lemma key_checks_simps [simp]:
  "key_checks [] = 0"
  "key_checks (WaitKey d # evs) = Suc (key_checks evs)"
  "key_checks (Log lv m # evs) = key_checks evs"
  "key_checks (Boto3Client a b c # evs) = key_checks evs"
  "key_checks (VideoCapture i # evs) = key_checks evs"
  "key_checks (Read # evs) = key_checks evs"
  "key_checks (Imencode fr # evs) = key_checks evs"
  "key_checks (DetectLabels r # evs) = key_checks evs"
  "key_checks (Imshow w fr # evs) = key_checks evs"
  "key_checks (Release # evs) = key_checks evs"
  "key_checks (DestroyAllWindows # evs) = key_checks evs"
  by (simp_all add: key_checks_def)

lemma shown_append: "shown (xs @ ys) = shown xs @ shown ys"
  by (simp add: shown_def map_filter_def)

lemma key_checks_append: "key_checks (xs @ ys) = key_checks xs + key_checks ys"
  by (simp add: key_checks_def)

lemma shown_user_input: "shown (fst (user_input_for_exit env)) = []"
  by (simp add: user_input_for_exit_def split: sum.splits)

lemma key_checks_user_input: "key_checks (fst (user_input_for_exit env)) = Suc 0"
  by (simp add: user_input_for_exit_def split: sum.splits)

lemma requests_displaying: "requests (fst (displaying_results cv fr ls env)) = []"
  by (simp add: displaying_results_def user_input_for_exit_def split_beta split: sum.splits)

lemma key_checks_displaying: "key_checks (fst (displaying_results cv fr ls env)) \<le> Suc 0"
  by (simp add: displaying_results_def key_checks_user_input split_beta split: sum.splits)

lemma key_checks_iteration: "key_checks (fst (iteration cv l env)) \<le> Suc 0"
  by (simp add: iteration_def key_checks_append key_checks_displaying split_beta
      split: sum.splits)

text \<open>
  \<^bold>\<open>C4.\<close> In a round in which \<^verbatim>\<open>detect_labels\<close> fails, no frame is shown and the exit key
  is not polled; the renderer is not run (the round is the same whatever
  \<^verbatim>\<open>cv2.getTextSize\<close> would answer), and the variable \<^verbatim>\<open>labels\<close> keeps its value. That
  value is never used afterwards: what any round \<open>env'\<close> does is the same for a stale
  value of \<^verbatim>\<open>labels\<close> as for none.
\<close>

theorem inference_failure_not_displayed:
  assumes "cap_read env = Inr (True, px)"
    and "imencode cv \<lparr>pixels = px, overlay = []\<rparr> = Inr (True, buf)"
    and "detect_labels env = Inl e"
  shows "shown (fst (iteration cv labels env)) = []
         \<and> key_checks (fst (iteration cv labels env)) = 0
         \<and> fst (snd (iteration cv labels env)) = labels
         \<and> iteration (cv\<lparr>getTextSize := g\<rparr>) labels env = iteration cv labels env
         \<and> fst (iteration cv stale env') = fst (iteration cv None env')
         \<and> snd (snd (iteration cv stale env')) = snd (snd (iteration cv None env'))"
  using assms iteration_labels_indep [of cv stale env' None]
  by (simp add: iteration_def)

theorem inference_failure_not_displayed_witness:
  "shown (fst (iteration cv0 (Some [detection cat]) env_throttled)) = []
   \<and> fst (snd (iteration cv0 (Some [detection cat]) env_throttled)) = Some [detection cat]"
  using inference_failure_not_displayed [of env_throttled 7 cv0 "[255, 216, 255]"
      "Exc ExceptionK ''ThrottlingException'' ''Rate exceeded''" "Some [detection cat]"
      "getTextSize cv0" None env_ok]
  by (simp add: env_throttled_def env_ok_def cv0_def)


lemma str_int_0: "str_int 0 = ''0''"
  by (simp add: str_int_def str_nat_digit digit_def)

lemma startup_events_ok:
  "startup_ok st \<Longrightarrow>
   startup_events st =
     [Boto3Client (the (AWS_ACCESS_KEY_ID st)) (the (AWS_SECRET_ACCESS_KEY st)) (REGION_NAME st),
      Log INFO (''Successfully initialized Rekognition client in region ''
        @ [CHR 0x27] @ REGION_NAME st @ [CHR 0x27] @ ''.''),
      Log INFO ''Attempting to open camera at index 0...'',
      VideoCapture 0,
      Log INFO ''Camera at index 0 opened successfully.'']"
  by (simp add: startup_ok_def startup_events_def initialize_rekognition_def open_camera_def
      str_int_0)

lemma main_try_ok:
  "startup_ok st \<Longrightarrow>
   main_try cv st envs =
     (startup_events st @ fst (process_frames cv None envs), Some 0,
      snd (process_frames cv None envs))"
  by (simp add: startup_ok_def startup_events_def main_try_def initialize_rekognition_def
      open_camera_def split_beta)

lemma startup_events_clean:
  "startup_ok st \<Longrightarrow>
   Release \<notin> set (startup_events st) \<and> DestroyAllWindows \<notin> set (startup_events st)
   \<and> count_list (startup_events st) Read = 0"
  by (simp add: startup_events_ok)

lemma count_cleanup:
  "count_list (cleanup (Some c)) Release = 1
   \<and> count_list (cleanup (Some c)) DestroyAllWindows = 1
   \<and> count_list (cleanup (Some c)) Read = 0"
  by (simp add: cleanup_def)

text \<open>When the loop has left, \<^verbatim>\<open>main\<close> has run the cleanup once, at the end.\<close>

lemma main_exit:
  assumes "startup_ok st" and "snd (process_frames cv None envs) \<noteq> Running"
  shows "\<exists>evs. fst (main cv st envs) = evs @ cleanup (Some 0)
           \<and> Release \<notin> set evs \<and> DestroyAllWindows \<notin> set evs"
proof -
  let ?body = "startup_events st @ fst (process_frames cv None envs)"
  have clean: "Release \<notin> set ?body \<and> DestroyAllWindows \<notin> set ?body"
    by (simp add: startup_events_ok [OF assms(1)] process_frames_no_cleanup)
  show ?thesis
  proof (cases "snd (process_frames cv None envs)")
    case Running
    with assms(2) show ?thesis by simp
  next
    case Returned
    then have "fst (main cv st envs) = ?body @ cleanup (Some 0)"
      by (simp add: main_def main_try_ok [OF assms(1)])
    with clean show ?thesis by blast
  next
    case (Propagated e)
    consider "is_RuntimeError e" | "\<not> is_RuntimeError e" "is_Exception e"
      | "\<not> is_RuntimeError e" "\<not> is_Exception e"
      by blast
    then show ?thesis
    proof cases
      case 1
      with Propagated
      have "fst (main cv st envs) =
          (?body @ [Log ERROR (''Runtime Error: '' @ message e)]) @ cleanup (Some 0)"
        by (simp add: main_def main_try_ok [OF assms(1)])
      moreover from clean
      have "Release \<notin> set (?body @ [Log ERROR (''Runtime Error: '' @ message e)])
          \<and> DestroyAllWindows \<notin> set (?body @ [Log ERROR (''Runtime Error: '' @ message e)])"
        by simp
      ultimately show ?thesis by blast
    next
      case 2
      with Propagated
      have "fst (main cv st envs) =
          (?body @ [Log ERROR (''An unexpected error occurred: '' @ message e)])
            @ cleanup (Some 0)"
        by (simp add: main_def main_try_ok [OF assms(1)])
      moreover from clean
      have "Release \<notin> set (?body @ [Log ERROR (''An unexpected error occurred: '' @ message e)])
          \<and> DestroyAllWindows
              \<notin> set (?body @ [Log ERROR (''An unexpected error occurred: '' @ message e)])"
        by simp
      ultimately show ?thesis by blast
    next
      case 3
      with Propagated have "fst (main cv st envs) = ?body @ cleanup (Some 0)"
        by (simp add: main_def main_try_ok [OF assms(1)])
      with clean show ?thesis by blast
    qed
  qed
qed

lemma main_outcome:
  "startup_ok st \<Longrightarrow>
   snd (main cv st envs) =
     (case snd (process_frames cv None envs) of
        Running \<Rightarrow> Running
      | Returned \<Rightarrow> Returned
      | Propagated e \<Rightarrow> if is_Exception e then Returned else Propagated e)"
  by (auto simp: main_def main_try_ok is_RuntimeError_def is_Exception_def
      split: outcome.splits)

text \<open>A round that does not continue ends the loop, whatever would come after it.\<close>

lemma process_frames_leaves:
  assumes "snd (process_frames cv l pre) = Running"
    and "snd (snd (iteration cv l' env)) \<noteq> Continue"
  shows "process_frames cv l (pre @ env # rest) =
           (fst (process_frames cv l pre) @ fst (iteration cv l' env),
            case snd (snd (iteration cv l' env)) of
              Raise e \<Rightarrow> Propagated e | _ \<Rightarrow> Returned)"
proof -
  obtain evs l1 c where it: "iteration cv l env = (evs, l1, c)"
    by (metis prod_cases3)
  from iteration_labels_indep [of cv l env l'] it
  have same: "fst (iteration cv l' env) = evs" "snd (snd (iteration cv l' env)) = c"
    by simp_all
  with assms(2) have "c \<noteq> Continue" by simp
  then have "process_frames cv l (env # rest) =
      (evs, case c of Raise e \<Rightarrow> Propagated e | _ \<Rightarrow> Returned)"
    using it by (cases c) simp_all
  with process_frames_append [OF assms(1), of "env # rest"] same
  show ?thesis by simp
qed

text \<open>
  \<^bold>\<open>C6.\<close> After a startup that reaches the loop, let the loop get through the rounds
  \<open>pre\<close> and then meet a round that does not continue: the camera has no frame, the
  exit key is pressed, or an exception leaves the loop body. Then, whatever rounds
  would follow, \<^verbatim>\<open>main\<close> ends (normally, or with the exception when it is not an
  \<^verbatim>\<open>Exception\<close>), its trace ends with the cleanup, before which nothing was released
  or closed: the camera is released exactly once and the windows are closed exactly
  once.
\<close>

theorem cleanup_exactly_once:
  assumes "startup_ok st"
    and "snd (process_frames cv None pre) = Running"
    and "snd (snd (iteration cv None env)) \<noteq> Continue"
  shows "snd (main cv st (pre @ env # rest)) =
           (case snd (snd (iteration cv None env)) of
              Raise e \<Rightarrow> if is_Exception e then Returned else Propagated e
            | _ \<Rightarrow> Returned)
         \<and> (\<exists>evs. fst (main cv st (pre @ env # rest)) = evs @ cleanup (Some 0)
               \<and> Release \<notin> set evs \<and> DestroyAllWindows \<notin> set evs)
         \<and> count_list (fst (main cv st (pre @ env # rest))) Release = 1
         \<and> count_list (fst (main cv st (pre @ env # rest))) DestroyAllWindows = 1"
proof -
  let ?envs = "pre @ env # rest"
  from process_frames_leaves [OF assms(2,3), of rest]
  have out: "snd (process_frames cv None ?envs) =
      (case snd (snd (iteration cv None env)) of Raise e \<Rightarrow> Propagated e | _ \<Rightarrow> Returned)"
    by simp
  then have left: "snd (process_frames cv None ?envs) \<noteq> Running"
    by (simp split: control.splits)
  have a: "snd (main cv st ?envs) =
           (case snd (snd (iteration cv None env)) of
              Raise e \<Rightarrow> if is_Exception e then Returned else Propagated e
            | _ \<Rightarrow> Returned)"
    using assms(3) by (simp add: main_outcome [OF assms(1)] out split: control.splits)
  from main_exit [OF assms(1) left]
  obtain evs where evs: "fst (main cv st ?envs) = evs @ cleanup (Some 0)"
    "Release \<notin> set evs" "DestroyAllWindows \<notin> set evs"
    by blast
  have c: "count_list (fst (main cv st ?envs)) Release = 1"
    "count_list (fst (main cv st ?envs)) DestroyAllWindows = 1"
    using evs by (simp_all add: count_cleanup)
  from a evs c show ?thesis by blast
qed

lemma iteration_eos:
  "cap_read env = Inr (False, px) \<Longrightarrow>
   iteration cv l env =
     ([Read, Log WARNING ''Failed to retrieve frame from camera. Exiting loop.''], l, Break)"
  by (simp add: iteration_def)

lemma draw_labels_bad: "draw_labels cv fr [\<lparr>Name = None, Confidence = None\<rparr>] = Inl (KeyError ''Name'')"
  by (simp add: draw_labels_def label_text_def)

lemma imencode_cv0: "imencode cv0 fr = Inr (True, [255, 216, 255])"
  by (simp add: cv0_def)

lemma startup_ok_st0: "startup_ok st0"
  by (simp add: startup_ok_def st0_def falsy_def)

theorem cleanup_exactly_once_witness:
  "startup_ok st0
   \<and> snd (main cv0 st0 [env_throttled, env_eos, env_ok]) = Returned
   \<and> count_list (fst (main cv0 st0 [env_throttled, env_eos, env_ok])) Release = 1
   \<and> count_list (fst (main cv0 st0 [env_throttled, env_eos, env_ok])) DestroyAllWindows = 1
   \<and> snd (main cv0 st0 [env_q, env_ok]) = Returned
   \<and> count_list (fst (main cv0 st0 [env_q, env_ok])) Release = 1
   \<and> snd (main cv0 st0 [env_bad_label, env_ok]) = Returned
   \<and> count_list (fst (main cv0 st0 [env_bad_label, env_ok])) Release = 1"
proof -
  have pre: "snd (process_frames cv0 None [env_throttled]) = Running"
    by (simp add: iteration_def env_throttled_def env_ok_def imencode_cv0 is_Exception_def)
  have eos: "snd (snd (iteration cv0 None env_eos)) = Break"
    by (simp add: iteration_eos env_eos_def env_ok_def)
  have q: "snd (snd (iteration cv0 None env_q)) = Break"
    by (simp add: iteration_def displaying_results_def user_input_for_exit_def env_q_def
        env_ok_def get_Labels_def draw_labels_cat_table split_beta imencode_cv0)
  have bad: "snd (snd (iteration cv0 None env_bad_label)) = Raise (KeyError ''Name'')"
    by (simp add: iteration_def displaying_results_def env_bad_label_def env_ok_def
        get_Labels_def draw_labels_bad split_beta imencode_cv0)
  have nil: "snd (process_frames cv0 None []) = Running" by simp
  show ?thesis
    using cleanup_exactly_once [OF startup_ok_st0 pre, of env_eos "[env_ok]"]
      cleanup_exactly_once [OF startup_ok_st0 nil, of env_q "[env_ok]"]
      cleanup_exactly_once [OF startup_ok_st0 nil, of env_bad_label "[env_ok]"]
      startup_ok_st0
    by (simp add: eos q bad KeyError_def is_Exception_def)
qed

text \<open>
  \<^bold>\<open>C9.\<close> When the credentials are set and the client is created but the camera does
  not open, \<^verbatim>\<open>main\<close> does exactly this, whatever the camera and the network would have
  answered: it logs the two errors and runs the cleanup, which skips the release of the
  camera and closes the windows; it returns normally. No frame is read.
\<close>

theorem camera_unopenable_aborts:
  assumes "\<not> falsy (AWS_ACCESS_KEY_ID st)" and "\<not> falsy (AWS_SECRET_ACCESS_KEY st)"
    and "boto3_client st = Inr ()" and "\<not> isOpened st"
  shows "main cv st envs =
           ([Boto3Client (the (AWS_ACCESS_KEY_ID st)) (the (AWS_SECRET_ACCESS_KEY st))
               (REGION_NAME st),
             Log INFO (''Successfully initialized Rekognition client in region ''
               @ [CHR 0x27] @ REGION_NAME st @ [CHR 0x27] @ ''.''),
             Log INFO ''Attempting to open camera at index 0...'',
             VideoCapture 0,
             Log ERROR ''Cannot open camera at index 0.'',
             Log ERROR ''Runtime Error: Cannot open camera at index 0'',
             Log INFO ''Starting cleanup...'',
             Log INFO ''Destroying OpenCV windows...'',
             DestroyAllWindows,
             Log INFO ''Application finished.''],
            Returned)
         \<and> count_list (fst (main cv st envs)) Read = 0
         \<and> count_list (fst (main cv st envs)) Release = 0
         \<and> count_list (fst (main cv st envs)) DestroyAllWindows = 1"
proof -
  have m: "main cv st envs =
           ([Boto3Client (the (AWS_ACCESS_KEY_ID st)) (the (AWS_SECRET_ACCESS_KEY st))
               (REGION_NAME st),
             Log INFO (''Successfully initialized Rekognition client in region ''
               @ [CHR 0x27] @ REGION_NAME st @ [CHR 0x27] @ ''.''),
             Log INFO ''Attempting to open camera at index 0...'',
             VideoCapture 0,
             Log ERROR ''Cannot open camera at index 0.'',
             Log ERROR ''Runtime Error: Cannot open camera at index 0'',
             Log INFO ''Starting cleanup...'',
             Log INFO ''Destroying OpenCV windows...'',
             DestroyAllWindows,
             Log INFO ''Application finished.''],
            Returned)"
    using assms
    by (simp add: main_def main_try_def initialize_rekognition_def open_camera_def
        cleanup_def str_int_0 is_RuntimeError_def)
  show ?thesis
    by (simp add: m)
qed

theorem camera_unopenable_aborts_witness:
  "main cv0 st_no_camera [env_ok, env_q] =
     ([Boto3Client ''AKIAEXAMPLE'' ''secret'' ''us-east-1'',
       Log INFO (''Successfully initialized Rekognition client in region ''
         @ [CHR 0x27] @ ''us-east-1'' @ [CHR 0x27] @ ''.''),
       Log INFO ''Attempting to open camera at index 0...'',
       VideoCapture 0,
       Log ERROR ''Cannot open camera at index 0.'',
       Log ERROR ''Runtime Error: Cannot open camera at index 0'',
       Log INFO ''Starting cleanup...'',
       Log INFO ''Destroying OpenCV windows...'',
       DestroyAllWindows,
       Log INFO ''Application finished.''],
      Returned)"
  using camera_unopenable_aborts [of st_no_camera cv0 "[env_ok, env_q]"]
  by (simp add: st_no_camera_def st0_def falsy_def)

text \<open>
  \<^bold>\<open>C10.\<close> A round whose response has no \<^verbatim>\<open>'Labels'\<close> key takes the empty list of labels,
  logs that 0 labels were detected and shows the frame with nothing drawn on it; then
  it polls the exit key as any displayed round does (unless \<^verbatim>\<open>cv2.imshow\<close> itself
  raises).
\<close>

theorem missing_Labels_key_displays_frame:
  assumes "cap_read env = Inr (True, px)"
    and "imencode cv \<lparr>pixels = px, overlay = []\<rparr> = Inr (True, buf)"
    and "detect_labels env = Inr resp"
    and "Labels resp = None"
  shows "get_Labels resp = []
         \<and> iteration cv labels env =
             ([Read, Imencode \<lparr>pixels = px, overlay = []\<rparr>,
               Log INFO ''Calling Rekognition detect_labels API...'',
               DetectLabels \<lparr>Image = \<lparr>Bytes = buf\<rparr>, MaxLabels = 10, MinConfidence = 75\<rparr>,
               Log INFO ''Rekognition detected 0 labels.'',
               Imshow ''Live Labels'' \<lparr>pixels = px, overlay = []\<rparr>]
              @ (case imshow env of Inl e \<Rightarrow> [] | Inr u \<Rightarrow> fst (user_input_for_exit env)),
              Some [],
              case imshow env of Inl e \<Rightarrow> Raise e | Inr u \<Rightarrow> snd (user_input_for_exit env))
         \<and> shown (fst (iteration cv labels env)) = [\<lparr>pixels = px, overlay = []\<rparr>]"
proof -
  have g: "get_Labels resp = []"
    using assms(4) by (simp add: get_Labels_def)
  have it: "iteration cv labels env =
             ([Read, Imencode \<lparr>pixels = px, overlay = []\<rparr>,
               Log INFO ''Calling Rekognition detect_labels API...'',
               DetectLabels \<lparr>Image = \<lparr>Bytes = buf\<rparr>, MaxLabels = 10, MinConfidence = 75\<rparr>,
               Log INFO ''Rekognition detected 0 labels.'',
               Imshow ''Live Labels'' \<lparr>pixels = px, overlay = []\<rparr>]
              @ (case imshow env of Inl e \<Rightarrow> [] | Inr u \<Rightarrow> fst (user_input_for_exit env)),
              Some [],
              case imshow env of Inl e \<Rightarrow> Raise e | Inr u \<Rightarrow> snd (user_input_for_exit env))"
    using assms(1-3)
    by (simp add: iteration_def displaying_results_def draw_labels_def g split_beta
        str_nat_digit digit_def split: sum.splits)
  have "shown (fst (iteration cv labels env)) = [\<lparr>pixels = px, overlay = []\<rparr>]"
    by (simp add: it shown_append shown_user_input split: sum.splits)
  with g it show ?thesis by simp
qed

theorem missing_Labels_key_displays_frame_witness:
  "iteration cv0 None env_no_Labels =
     ([Read, Imencode \<lparr>pixels = 7, overlay = []\<rparr>,
       Log INFO ''Calling Rekognition detect_labels API...'',
       DetectLabels \<lparr>Image = \<lparr>Bytes = [255, 216, 255]\<rparr>, MaxLabels = 10, MinConfidence = 75\<rparr>,
       Log INFO ''Rekognition detected 0 labels.'',
       Imshow ''Live Labels'' \<lparr>pixels = 7, overlay = []\<rparr>,
       WaitKey 1],
      Some [], Continue)"
  using missing_Labels_key_displays_frame [of env_no_Labels 7 cv0 "[255, 216, 255]"
      "\<lparr>Labels = None\<rparr>" None]
  by (simp add: env_no_Labels_def env_ok_def imencode_cv0 user_input_for_exit_def)


lemma requests_iteration:
  "r \<in> set (requests (fst (iteration cv l env))) \<Longrightarrow>
   MaxLabels r = 10 \<and> MinConfidence r = 75
   \<and> (\<exists>px. cap_read env = Inr (True, px)
         \<and> imencode cv \<lparr>pixels = px, overlay = []\<rparr> = Inr (True, Bytes (Image r)))"
  by (auto simp: iteration_def requests_append requests_displaying split_beta
      split: sum.splits if_splits)

lemma requests_process_frames:
  "r \<in> set (requests (fst (process_frames cv l envs))) \<Longrightarrow>
   MaxLabels r = 10 \<and> MinConfidence r = 75
   \<and> (\<exists>env \<in> set envs. \<exists>px. cap_read env = Inr (True, px)
         \<and> imencode cv \<lparr>pixels = px, overlay = []\<rparr> = Inr (True, Bytes (Image r)))"
proof (induction envs arbitrary: l)
  case Nil
  then show ?case by simp
next
  case (Cons env envs)
  obtain evs l1 c where it: "iteration cv l env = (evs, l1, c)"
    by (metis prod_cases3)
  from Cons.prems it
  consider "r \<in> set (requests evs)"
    | "c = Continue" "r \<in> set (requests (fst (process_frames cv l1 envs)))"
    by (cases c) (auto simp: requests_append split: prod.splits)
  then show ?case
  proof cases
    case 1
    with requests_iteration [of r cv l env] it show ?thesis by auto
  next
    case 2
    from Cons.IH [OF 2(2)] show ?thesis by auto
  qed
qed

text \<open>
  \<^bold>\<open>C8.\<close> The request that a round sends to \<^verbatim>\<open>detect_labels\<close> carries the bytes that
  \<^verbatim>\<open>cv2.imencode\<close> returned for the frame just read, \<open>MaxLabels = 10\<close> and
  \<open>MinConfidence = 75\<close> (the literal of the source, the number 75.0); a round whose frame
  was read and encoded sends exactly this one request, and every request of a whole
  session has these parameters and the encoded bytes of a frame read in one of its rounds.
\<close>

theorem inference_request_parameters:
  "(cap_read env = Inr (True, px) \<and> imencode cv \<lparr>pixels = px, overlay = []\<rparr> = Inr (True, buf)
      \<longrightarrow> requests (fst (iteration cv labels env)) =
            [\<lparr>Image = \<lparr>Bytes = buf\<rparr>, MaxLabels = 10, MinConfidence = 75\<rparr>])
   \<and> (\<forall>r \<in> set (requests (fst (process_frames cv labels envs))).
        MaxLabels r = 10 \<and> MinConfidence r = 75
        \<and> (\<exists>env \<in> set envs. \<exists>px. cap_read env = Inr (True, px)
              \<and> imencode cv \<lparr>pixels = px, overlay = []\<rparr> = Inr (True, Bytes (Image r))))"
proof (intro conjI impI ballI)
  assume "cap_read env = Inr (True, px) \<and> imencode cv \<lparr>pixels = px, overlay = []\<rparr> = Inr (True, buf)"
  then show "requests (fst (iteration cv labels env)) =
            [\<lparr>Image = \<lparr>Bytes = buf\<rparr>, MaxLabels = 10, MinConfidence = 75\<rparr>]"
    by (simp add: iteration_def requests_append requests_displaying split_beta
        split: sum.splits)
next
  fix r assume r: "r \<in> set (requests (fst (process_frames cv labels envs)))"
  from requests_process_frames [OF r]
  show "MaxLabels r = 10" and "MinConfidence r = 75"
    and "\<exists>env \<in> set envs. \<exists>px. cap_read env = Inr (True, px)
              \<and> imencode cv \<lparr>pixels = px, overlay = []\<rparr> = Inr (True, Bytes (Image r))"
    by simp_all
qed

theorem inference_request_parameters_witness:
  "requests (fst (iteration cv0 None env_throttled)) =
     [\<lparr>Image = \<lparr>Bytes = [255, 216, 255]\<rparr>, MaxLabels = 10, MinConfidence = 75\<rparr>]
   \<and> requests (fst (process_frames cv0 None [env_throttled, env_eos])) =
     [\<lparr>Image = \<lparr>Bytes = [255, 216, 255]\<rparr>, MaxLabels = 10, MinConfidence = 75\<rparr>]"
proof -
  have rd: "cap_read env_throttled = Inr (True, 7)"
    by (simp add: env_throttled_def env_ok_def)
  have b: "requests (fst (iteration cv0 None env_throttled)) =
     [\<lparr>Image = \<lparr>Bytes = [255, 216, 255]\<rparr>, MaxLabels = 10, MinConfidence = 75\<rparr>]"
    using inference_request_parameters [of env_throttled 7 cv0 "[255, 216, 255]" None "[]"]
    by (simp add: rd imencode_cv0)
  have c: "snd (snd (iteration cv0 None env_throttled)) = Continue"
    by (simp add: iteration_def env_throttled_def env_ok_def imencode_cv0 is_Exception_def)
  have d: "process_frames cv0 None [env_throttled, env_eos] =
      (fst (iteration cv0 None env_throttled) @ fst (process_frames cv0 None [env_eos]),
       snd (process_frames cv0 None [env_eos]))"
    using process_frames_Continue [of cv0 None env_throttled
        "fst (iteration cv0 None env_throttled)" "fst (snd (iteration cv0 None env_throttled))"
        "[env_eos]"] c
    by (metis prod.collapse)
  have e: "requests (fst (process_frames cv0 None [env_eos])) = []"
    by (simp add: iteration_def env_eos_def env_ok_def)
  from b show ?thesis
    by (simp only: d fst_conv requests_append e append_Nil2 simp_thms)
qed


lemma iteration_displayed:
  assumes "cap_read env = Inr (True, px)"
    and "imencode cv \<lparr>pixels = px, overlay = []\<rparr> = Inr (True, buf)"
    and "detect_labels env = Inr resp"
    and "draw_labels cv \<lparr>pixels = px, overlay = []\<rparr> (get_Labels resp) = Inr fr"
    and "imshow env = Inr ()"
  shows "iteration cv labels env =
           ([Read, Imencode \<lparr>pixels = px, overlay = []\<rparr>,
             Log INFO ''Calling Rekognition detect_labels API...'',
             DetectLabels \<lparr>Image = \<lparr>Bytes = buf\<rparr>, MaxLabels = 10, MinConfidence = 75\<rparr>,
             Log INFO (''Rekognition detected '' @ str_nat (length (get_Labels resp))
               @ '' labels.''),
             Imshow ''Live Labels'' fr]
            @ fst (user_input_for_exit env),
            Some (get_Labels resp), snd (user_input_for_exit env))"
  using assms by (simp add: iteration_def displaying_results_def split_beta)

lemma user_input_q:
  "waitKey env = Inr k \<Longrightarrow> k AND 0xFF = of_char CHR ''q'' \<Longrightarrow>
   snd (user_input_for_exit env) = Break"
  by (simp add: user_input_for_exit_def)

lemma main_Returned:
  assumes "startup_ok st" and "process_frames cv None envs = (evs, Returned)"
  shows "main cv st envs = (startup_events st @ evs @ cleanup (Some 0), Returned)"
  using assms(2) by (simp add: main_def main_try_ok [OF assms(1)])

lemma key_checks_not_shown:
  "shown (fst (iteration cv l env)) = [] \<Longrightarrow> key_checks (fst (iteration cv l env)) = 0"
  by (auto simp: iteration_def displaying_results_def split_beta
      split: sum.splits if_splits)

text \<open>
  \<^bold>\<open>C5\<close>, as stated, fails: a round in which \<^verbatim>\<open>detect_labels\<close> fails continues with the
  next round without having polled the exit key.
\<close>

theorem exit_check_every_round_counterexample:
  "key_checks (fst (iteration cv0 None env_throttled)) = 0
   \<and> snd (snd (iteration cv0 None env_throttled)) = Continue"
  by (simp add: iteration_def env_throttled_def env_ok_def imencode_cv0 is_Exception_def)

text \<open>
  \<^bold>\<open>C5\<close>, amended. No round polls the exit key more than once; a round that shows no
  frame does not poll it, and a round that reaches the display step (the frame was read
  and encoded, \<^verbatim>\<open>detect_labels\<close> returned, the labels were drawn and \<^verbatim>\<open>cv2.imshow\<close>
  returned) polls it exactly once. When the key
  code then has \<open>q\<close> in its low byte, the round breaks: after a startup that reached the
  loop and the rounds \<open>pre\<close> before it, \<^verbatim>\<open>main\<close> does that round, then the cleanup, and
  returns, whatever rounds \<open>rest\<close> would follow; the camera was read once per round up to
  this one and not again.
\<close>

theorem exit_check_once_per_displayed_round:
  "key_checks (fst (iteration cv labels env)) \<le> 1
   \<and> (shown (fst (iteration cv labels env)) = []
      \<longrightarrow> key_checks (fst (iteration cv labels env)) = 0)
   \<and> (cap_read env = Inr (True, px)
        \<and> imencode cv \<lparr>pixels = px, overlay = []\<rparr> = Inr (True, buf)
        \<and> detect_labels env = Inr resp
        \<and> draw_labels cv \<lparr>pixels = px, overlay = []\<rparr> (get_Labels resp) = Inr fr
        \<and> imshow env = Inr ()
      \<longrightarrow> key_checks (fst (iteration cv labels env)) = 1
          \<and> (waitKey env = Inr k \<and> k AND 0xFF = of_char CHR ''q''
               \<and> startup_ok st \<and> snd (process_frames cv None pre) = Running
             \<longrightarrow> snd (snd (iteration cv labels env)) = Break
                 \<and> main cv st (pre @ env # rest) =
                     (startup_events st @ fst (process_frames cv None pre)
                        @ fst (iteration cv labels env) @ cleanup (Some 0),
                      Returned)
                 \<and> count_list (fst (main cv st (pre @ env # rest))) Read = Suc (length pre)))"
proof (intro conjI impI)
  show "key_checks (fst (iteration cv labels env)) \<le> 1"
    using key_checks_iteration [of cv labels env] by simp
next
  assume "shown (fst (iteration cv labels env)) = []"
  then show "key_checks (fst (iteration cv labels env)) = 0"
    by (rule key_checks_not_shown)
next
  assume d: "cap_read env = Inr (True, px)
        \<and> imencode cv \<lparr>pixels = px, overlay = []\<rparr> = Inr (True, buf)
        \<and> detect_labels env = Inr resp
        \<and> draw_labels cv \<lparr>pixels = px, overlay = []\<rparr> (get_Labels resp) = Inr fr
        \<and> imshow env = Inr ()"
  then have it: "iteration cv labels env =
           ([Read, Imencode \<lparr>pixels = px, overlay = []\<rparr>,
             Log INFO ''Calling Rekognition detect_labels API...'',
             DetectLabels \<lparr>Image = \<lparr>Bytes = buf\<rparr>, MaxLabels = 10, MinConfidence = 75\<rparr>,
             Log INFO (''Rekognition detected '' @ str_nat (length (get_Labels resp))
               @ '' labels.''),
             Imshow ''Live Labels'' fr]
            @ fst (user_input_for_exit env),
            Some (get_Labels resp), snd (user_input_for_exit env))"
    using iteration_displayed [of env px cv buf resp fr labels] by simp
  show "key_checks (fst (iteration cv labels env)) = 1"
    by (simp add: it key_checks_user_input)
  assume q: "waitKey env = Inr k \<and> k AND 0xFF = of_char CHR ''q''
               \<and> startup_ok st \<and> snd (process_frames cv None pre) = Running"
  then have ok: "startup_ok st" and run: "snd (process_frames cv None pre) = Running"
    by simp_all
  from q have br: "snd (snd (iteration cv labels env)) = Break"
    by (simp add: it user_input_q [of env k])
  then show "snd (snd (iteration cv labels env)) = Break" .
  from br have nc: "snd (snd (iteration cv labels env)) \<noteq> Continue" by simp
  from process_frames_leaves [OF run nc, of rest] br
  have pf: "process_frames cv None (pre @ env # rest) =
      (fst (process_frames cv None pre) @ fst (iteration cv labels env), Returned)"
    by simp
  from main_Returned [OF ok pf]
  show m: "main cv st (pre @ env # rest) =
                     (startup_events st @ fst (process_frames cv None pre)
                        @ fst (iteration cv labels env) @ cleanup (Some 0),
                      Returned)"
    by simp
  show "count_list (fst (main cv st (pre @ env # rest))) Read = Suc (length pre)"
    by (simp add: m startup_events_ok [OF ok] count_Read_running [OF run]
        count_Read_iteration count_cleanup)
qed

theorem exit_check_once_per_displayed_round_witness:
  "key_checks (fst (iteration cv0 None env_q)) = 1
   \<and> startup_ok st0
   \<and> snd (process_frames cv0 None [env_throttled]) = Running
   \<and> snd (snd (iteration cv0 None env_q)) = Break
   \<and> snd (main cv0 st0 ([env_throttled] @ env_q # [env_ok])) = Returned
   \<and> count_list (fst (main cv0 st0 ([env_throttled] @ env_q # [env_ok]))) Read = 2"
proof -
  have pre: "snd (process_frames cv0 None [env_throttled]) = Running"
    by (simp add: iteration_def env_throttled_def env_ok_def imencode_cv0 is_Exception_def)
  have q: "(1048689 :: int) AND 0xFF = of_char CHR ''q''"
    by simp
  have rd: "cap_read env_q = Inr (True, 7)" "detect_labels env_q =
      Inr \<lparr>Labels = Some [detection cat, detection table]\<rparr>" "imshow env_q = Inr ()"
    "waitKey env_q = Inr 1048689"
    by (simp_all add: env_q_def env_ok_def)
  have g: "get_Labels \<lparr>Labels = Some [detection cat, detection table]\<rparr> =
      [detection cat, detection table]"
    by (simp add: get_Labels_def)
  show ?thesis
    using exit_check_once_per_displayed_round [of cv0 None env_q 7 "[255, 216, 255]"
        "\<lparr>Labels = Some [detection cat, detection table]\<rparr>"
        "\<lparr>pixels = 7, overlay =
       [Rectangle (5, 11) (131, 41) (0, 0, 0) (- 1),
        PutText ''Cat (91.2%)'' (10, 33) FONT_HERSHEY_SIMPLEX font_scale (0, 255, 0) 1,
        Rectangle (5, 51) (153, 81) (0, 0, 0) (- 1),
        PutText ''Table (78.5%)'' (10, 73) FONT_HERSHEY_SIMPLEX font_scale (0, 255, 0) 1]\<rparr>"
        1048689 st0 "[env_throttled]" "[env_ok]"]
    by (simp add: rd g q pre imencode_cv0 draw_labels_cat_table startup_ok_st0
        startup_events_clean [OF startup_ok_st0] count_Read_running [OF pre]
        count_Read_iteration count_cleanup
        del: process_frames.simps)
qed

end
